theory Spec2Isabelle
  imports
    Complex_Main
    "HOL-Library.Char_ord"
    "HOL-Library.List_Lexorder"
    "HOL-Library.Product_Lexorder"
    "HOL-Library.Option_ord"
    "HOL-Library.Multiset"
begin

section \<open>Data model\<close>

text \<open>
  The frames of the source are polars data frames; a frame is modelled as the list of
  its rows, a row as a record of its columns, and a nullable column as an \<open>option\<close>
  (\<open>None\<close> is the polars null). Dates are day numbers (days since 1970-01-01), so
  that a difference of two dates is \<open>dt.total_days()\<close>. Amounts
  (\<open>total_accepted\<close>, a Float64 column holding whole dollar amounts) are integers,
  rates are rationals.

  \<open>auction\<close> is one row of the frame that \<open>_classifyTenor\<close> receives: the
  \<open>REQUIRED_FIELDS\<close> of the API after the literal \<open>"null"\<close> sentinels were turned
  into nulls and the date columns were parsed (lines 356-398). The identity and date
  columns (\<open>cusip\<close>, \<open>issue_date\<close>, \<open>maturity_date\<close>, \<open>announcemt_date\<close>,
  \<open>auction_date\<close>) are taken to be present in every record.
\<close>

record auction =
  cusip :: string
  security_type :: string
  issue_date :: int
  original_issue_date :: "int option"
  maturity_date :: int
  int_rate :: "rat option"
  total_accepted :: "int option"
  reopening :: string
  inflation_index_security :: string
  floating_rate :: string
  announcemt_date :: int
  announcemtd_cusip :: "string option"
  auction_date :: int

text \<open>The two columns \<open>_classifyTenor\<close> adds.\<close>

record classified = auction +
  unscheduledReopeningDate :: "int option"
  tenor :: "int option"

section \<open>Three-valued column expressions\<close>

text \<open>
  A polars comparison with a null operand is null, \<open>&\<close> is Kleene conjunction, and
  \<open>when(c).then(a).otherwise(b)\<close> takes \<open>a\<close> only where \<open>c\<close> is true (a null
  condition falls to \<open>otherwise\<close>).
\<close>

definition neq3 :: "string option \<Rightarrow> string \<Rightarrow> bool option" where
  "neq3 a s = map_option (\<lambda>x. x \<noteq> s) a"

definition and3 :: "bool option \<Rightarrow> bool option \<Rightarrow> bool option" where
  "and3 a b =
     (if a = Some False \<or> b = Some False then Some False
      else if a = Some True \<and> b = Some True then Some True
      else None)"

definition whenThen :: "bool option \<Rightarrow> 'a \<Rightarrow> 'a \<Rightarrow> 'a" where
  "whenThen c a b = (if c = Some True then a else b)"

definition sub3 :: "int option \<Rightarrow> int option \<Rightarrow> int option" where
  "sub3 a b = (case (a, b) of (Some x, Some y) \<Rightarrow> Some (x - y) | _ \<Rightarrow> None)"

section \<open>Tenor classification (\<open>_classifyTenor\<close>)\<close>

text \<open>
  The \<open>when/then\<close> chain of lines 232-287, in the source's order: lower bound, upper
  bound (both inclusive) and the tenor assigned. \<open>365.25\<close> and the bounds computed
  from it are exact in binary floating point, so the comparisons are those of the
  rationals.
\<close>

definition tenorBands :: "(rat \<times> rat \<times> int) list" where
  "tenorBands =
    [(6, 8, 1), (13, 15, 2), (26, 30, 4), (53, 59, 8), (86, 96, 13),
     (114, 124, 17), (149, 159, 22), (176, 188, 26), (357, 371, 52),
     (2 * 365.25 - 93, 2 * 365.25 + 93, 2),
     (3 * 365.25 - 93, 3 * 365.25 + 93, 3),
     (4 * 365.25 - 93, 4 * 365.25 + 93, 4),
     (5 * 365.25 - 180, 5 * 365.25 + 180, 5),
     (7 * 365.25 - 180, 7 * 365.25 + 180, 7),
     (10 * 365.25 - 240, 10 * 365.25 + 240, 10),
     (20 * 365.25 - 540, 20 * 365.25 + 540, 20),
     (30 * 365.25 - 720, 30 * 365.25 + 720, 30)]"

definition inBand :: "rat \<times> rat \<times> int \<Rightarrow> int \<Rightarrow> bool" where
  "inBand b t = (fst b \<le> of_int t \<and> of_int t \<le> fst (snd b))"

text \<open>The chain takes the first band whose condition holds, \<open>otherwise(None)\<close>.\<close>

fun whenThenChain :: "(rat \<times> rat \<times> int) list \<Rightarrow> int \<Rightarrow> int option" where
  "whenThenChain [] t = None"
| "whenThenChain (b # bs) t = (if inBand b t then Some (snd (snd b)) else whenThenChain bs t)"

definition tenorOf :: "int option \<Rightarrow> int option" where
  "tenorOf termToMaturityDays =
     (case termToMaturityDays of None \<Rightarrow> None | Some t \<Rightarrow> whenThenChain tenorBands t)"

text \<open>
  \<open>group_by("cusip").agg(first)\<close> on the frame sorted by \<open>cusip, issue_date\<close>: the
  issue and maturity date of the first row of the cusip.
\<close>

definition earliestDates :: "auction list \<Rightarrow> string \<Rightarrow> (int \<times> int) option" where
  "earliestDates df c =
     map_option (\<lambda>x. (issue_date x, maturity_date x)) (find (\<lambda>x. auction.cusip x = c) df)"

definition isUnscheduledReopening :: "auction \<Rightarrow> bool option" where
  "isUnscheduledReopening r =
     and3 (neq3 (announcemtd_cusip r) ''null'') (Some (reopening r = ''Yes''))"

definition termToMaturityDays :: "auction list \<Rightarrow> auction \<Rightarrow> int option" where
  "termToMaturityDays df r =
     (let e = earliestDates df (auction.cusip r);
          earliestIssueDate = map_option fst e;
          earliestMaturityDate = map_option snd e
      in whenThen (isUnscheduledReopening r)
           (sub3 earliestMaturityDate (Some (issue_date r)))
           (sub3 earliestMaturityDate earliestIssueDate))"

definition classifyRow :: "auction list \<Rightarrow> auction \<Rightarrow> classified" where
  "classifyRow df r =
     auction.extend r
       (classified.fields
          (whenThen (isUnscheduledReopening r) (Some (issue_date r)) None)
          (tenorOf (termToMaturityDays df r)))"

text \<open>
  \<open>df.sort(["cusip", "issue_date"])\<close> is taken to be the stable sort on the pair;
  strings compare bytewise, lexicographically. The output adds the two columns to every
  row and drops the intermediate ones (line 290).
\<close>

definition classifyTenor :: "auction list \<Rightarrow> classified list" where
  "classifyTenor df0 =
     (let df = sort_key (\<lambda>r. (auction.cusip r, issue_date r)) df0 in map (classifyRow df) df)"


section \<open>Panel construction (\<open>_createCusipPanel\<close>)\<close>

text \<open>
  The frame \<open>_createCusipPanel\<close> receives is the classified frame after the column
  conversions of \<open>_loadOrDownloadData\<close> (lines 403-424): the two flags become
  Booleans (\<open>== "Yes"\<close>) and \<open>reopening\<close> becomes \<open>issuanceType\<close>. The
  conversions are applied below where the columns are selected (lines 508-523).
\<close>

definition issuanceTypeOf :: "string \<Rightarrow> string option" where
  "issuanceTypeOf reop =
     (if reop = ''No'' then Some ''Opening''
      else if reop = ''Yes'' then Some ''Re-opening''
      else None)"

text \<open>
  One row of the joined frame and of the output, with the output's sixteen columns.
  \<open>totalIssued\<close> and \<open>vintage\<close> are created late by \<open>with_columns\<close>; they are
  null until then.
\<close>

record panelRow =
  date :: int
  cusip :: string
  securityType :: "string option"
  tenor :: "int option"
  vintage :: "int option"
  coupon :: "rat option"
  maturityDate :: "int option"
  TIPS :: "bool option"
  floatingRate :: "bool option"
  firstIssueDate :: "int option"
  issuanceType :: "string option"
  auctionDate :: "int option"
  unscheduledReopeningDate :: "int option"
  amountIssued :: "int option"
  totalIssued :: "int option"
  announcementDate :: "int option"

datatype error = ValueError

text \<open>
  The system clock that \<open>date.today()\<close> reads (line 484): POSIX seconds and the
  local offset from UTC; \<open>date.today()\<close> is the local calendar day.
\<close>

record clock =
  posix_seconds :: int
  utc_offset_seconds :: int

definition date_today :: "clock \<Rightarrow> int" where
  "date_today clk = (posix_seconds clk + utc_offset_seconds clk) div 86400"

text \<open>ISO weekday of a day number, Monday = 1 ... Sunday = 7 (1970-01-01 was a Thursday).\<close>

definition weekday :: "int \<Rightarrow> int" where
  "weekday d = (d + 3) mod 7 + 1"

subsection \<open>Steps 1 and 2: first issue date and the calendar\<close>

text \<open>\<open>pl.col("issue_date").min().over("cusip")\<close>.\<close>

definition firstIssueDateOver :: "classified list \<Rightarrow> string \<Rightarrow> int option" where
  "firstIssueDateOver df c =
     (case filter (\<lambda>x. auction.cusip x = c) df of
        [] \<Rightarrow> None
      | x # xs \<Rightarrow> Some (fold min (map issue_date xs) (issue_date x)))"

text \<open>
  \<open>group_by("cusip").agg([min announcemt_date, first maturity_date])\<close>: one row per
  cusip. polars leaves the order of the groups open; the frame is sorted by cusip and
  date before any step that depends on the order.
\<close>

definition groupAgg :: "classified list \<Rightarrow> (int \<times> int) option" where
  "groupAgg g =
     (case g of
        [] \<Rightarrow> None
      | x # xs \<Rightarrow> Some (fold min (map announcemt_date xs) (announcemt_date x), maturity_date x))"

definition cusipDateRanges :: "classified list \<Rightarrow> (string \<times> int \<times> int) list" where
  "cusipDateRanges df =
     List.map_filter
       (\<lambda>c. map_option (\<lambda>se. (c, se)) (groupAgg (filter (\<lambda>x. auction.cusip x = c) df)))
       (remdups (map auction.cusip df))"

text \<open>The loop body of lines 486-502: every calendar day of the cusip, bounded by today.\<close>

definition cusipDates :: "int \<Rightarrow> string \<times> int \<times> int \<Rightarrow> (string \<times> int) list" where
  "cusipDates today row =
     (case row of (c, start_date, end_date) \<Rightarrow>
        map (\<lambda>d. (c, d)) [start_date..min end_date today])"

subsection \<open>Step 3: the auction columns and the future-dated records\<close>

definition selectAuctionData :: "classified list \<Rightarrow> classified \<Rightarrow> panelRow" where
  "selectAuctionData df a =
     \<lparr>date = issue_date a,
      cusip = auction.cusip a,
      securityType = Some (security_type a),
      tenor = classified.tenor a,
      vintage = None,
      coupon = int_rate a,
      maturityDate = Some (maturity_date a),
      TIPS = Some (inflation_index_security a = ''Yes''),
      floatingRate = Some (floating_rate a = ''Yes''),
      firstIssueDate = firstIssueDateOver df (auction.cusip a),
      issuanceType = issuanceTypeOf (reopening a),
      auctionDate = Some (auction_date a),
      unscheduledReopeningDate = classified.unscheduledReopeningDate a,
      amountIssued = total_accepted a,
      totalIssued = None,
      announcementDate = Some (announcemt_date a)\<rparr>"

definition redateToToday :: "int \<Rightarrow> panelRow \<Rightarrow> panelRow" where
  "redateToToday today r =
     r\<lparr>date := today, issuanceType := None, unscheduledReopeningDate := None,
       amountIssued := Some 0\<rparr>"

text \<open>Lines 526-545.\<close>

definition resolveFutureDated :: "int \<Rightarrow> panelRow list \<Rightarrow> panelRow list" where
  "resolveFutureDated today auctionData =
     (let futureDated = filter (\<lambda>r. date r > today) auctionData in
      if length futureDated > 0 then
        (let cusipsWithToday = map cusip (filter (\<lambda>r. date r = today) auctionData);
             futureWithoutToday = filter (\<lambda>r. cusip r \<notin> set cusipsWithToday) futureDated;
             auctionData' = filter (\<lambda>r. date r \<le> today) auctionData
         in if length futureWithoutToday > 0
            then auctionData' @ map (redateToToday today) futureWithoutToday
            else auctionData')
      else auctionData)"

text \<open>
  The left join on \<open>cusip, date\<close>: a calendar slot yields every matching auction row
  (one row per match), or one row of nulls when nothing matches.
\<close>

definition nullRow :: "string \<Rightarrow> int \<Rightarrow> panelRow" where
  "nullRow c d =
     \<lparr>date = d, cusip = c, securityType = None, tenor = None, vintage = None,
      coupon = None, maturityDate = None, TIPS = None, floatingRate = None,
      firstIssueDate = None, issuanceType = None, auctionDate = None,
      unscheduledReopeningDate = None, amountIssued = None, totalIssued = None,
      announcementDate = None\<rparr>"

definition joinSlot :: "panelRow list \<Rightarrow> string \<times> int \<Rightarrow> panelRow list" where
  "joinSlot auctionData slot =
     (case filter (\<lambda>r. cusip r = fst slot \<and> date r = snd slot) auctionData of
        [] \<Rightarrow> [nullRow (fst slot) (snd slot)]
      | m # ms \<Rightarrow> m # ms)"

definition leftJoin :: "(string \<times> int) list \<Rightarrow> panelRow list \<Rightarrow> panelRow list" where
  "leftJoin completeDates auctionData = concat (map (joinSlot auctionData) completeDates)"

subsection \<open>Forward and backward fill over the cusip\<close>

text \<open>
  \<open>forward_fill().over("cusip")\<close> of one column, given by its selector and its update
  function: a null takes the last non-null value seen in an earlier row of the same
  cusip; \<open>seen\<close> holds that value per cusip. \<open>backward_fill\<close> is the same scan from
  the end of the frame.
\<close>

fun forwardFillOver ::
  "(panelRow \<Rightarrow> 'a option) \<Rightarrow> (('a option \<Rightarrow> 'a option) \<Rightarrow> panelRow \<Rightarrow> panelRow) \<Rightarrow>
   (string \<Rightarrow> 'a option) \<Rightarrow> panelRow list \<Rightarrow> panelRow list" where
  "forwardFillOver col upd seen [] = []"
| "forwardFillOver col upd seen (r # rs) =
     (case col r of
        None \<Rightarrow> upd (\<lambda>_. seen (cusip r)) r # forwardFillOver col upd seen rs
      | Some v \<Rightarrow> r # forwardFillOver col upd (seen(cusip r := Some v)) rs)"

definition forward_fill ::
  "(panelRow \<Rightarrow> 'a option) \<Rightarrow> (('a option \<Rightarrow> 'a option) \<Rightarrow> panelRow \<Rightarrow> panelRow) \<Rightarrow>
   panelRow list \<Rightarrow> panelRow list" where
  "forward_fill col upd rows = forwardFillOver col upd (\<lambda>_. None) rows"

definition backward_fill ::
  "(panelRow \<Rightarrow> 'a option) \<Rightarrow> (('a option \<Rightarrow> 'a option) \<Rightarrow> panelRow \<Rightarrow> panelRow) \<Rightarrow>
   panelRow list \<Rightarrow> panelRow list" where
  "backward_fill col upd rows = rev (forwardFillOver col upd (\<lambda>_. None) (rev rows))"

text \<open>Lines 558-569 and 572-582; each expression reads and writes its own column only.\<close>

definition forwardFillStatic :: "panelRow list \<Rightarrow> panelRow list" where
  "forwardFillStatic rows =
     (forward_fill securityType securityType_update
       (forward_fill floatingRate floatingRate_update
         (forward_fill TIPS TIPS_update
           (forward_fill firstIssueDate firstIssueDate_update
             (forward_fill unscheduledReopeningDate unscheduledReopeningDate_update
               (forward_fill auctionDate auctionDate_update
                 (forward_fill announcementDate announcementDate_update
                   (forward_fill maturityDate maturityDate_update
                     (forward_fill coupon coupon_update
                       (forward_fill tenor tenor_update rows))))))))))"

definition backwardFillStatic :: "panelRow list \<Rightarrow> panelRow list" where
  "backwardFillStatic rows =
     (backward_fill securityType securityType_update
       (backward_fill floatingRate floatingRate_update
         (backward_fill TIPS TIPS_update
           (backward_fill firstIssueDate firstIssueDate_update
             (backward_fill auctionDate auctionDate_update
               (backward_fill announcementDate announcementDate_update
                 (backward_fill maturityDate maturityDate_update
                   (backward_fill coupon coupon_update
                     (backward_fill tenor tenor_update rows)))))))))"

subsection \<open>Amount issued and cumulative issuance\<close>

definition lt3 :: "int \<Rightarrow> int option \<Rightarrow> bool option" where
  "lt3 a b = map_option (\<lambda>y. a < y) b"

definition fill_null :: "int option \<Rightarrow> int \<Rightarrow> int option" where
  "fill_null v d = (case v of None \<Rightarrow> Some d | Some a \<Rightarrow> Some a)"

text \<open>Lines 585-590.\<close>

definition setAmountIssued :: "panelRow \<Rightarrow> panelRow" where
  "setAmountIssued r =
     r\<lparr>amountIssued :=
         whenThen (lt3 (date r) (firstIssueDate r)) (Some 0) (fill_null (amountIssued r) 0)\<rparr>"

text \<open>
  Sort orders. A descending column compares in reverse; nulls come first in either
  direction (\<open>nulls_last = False\<close>), so a nullable descending column is a null or a
  reversed value. The sorts are taken to be stable.
\<close>

datatype 'a desc = Desc (undesc: 'a)

instantiation desc :: (linorder) linorder
begin

definition less_eq_desc :: "'a desc \<Rightarrow> 'a desc \<Rightarrow> bool" where
  "less_eq_desc a b = (undesc b \<le> undesc a)"

definition less_desc :: "'a desc \<Rightarrow> 'a desc \<Rightarrow> bool" where
  "less_desc a b = (undesc b < undesc a)"

instance
  by standard (auto simp: less_eq_desc_def less_desc_def desc.expand)

end

definition cumSumKey :: "panelRow \<Rightarrow> string desc \<times> int \<times> int option \<times> int desc option" where
  "cumSumKey r = (Desc (cusip r), date r, tenor r, map_option Desc (firstIssueDate r))"

text \<open>
  \<open>cum_sum().over("cusip")\<close>: the running sum of the cusip's rows in frame order;
  \<open>acc\<close> holds the sum so far per cusip. A null stays null and adds nothing.
\<close>

fun cumSumOver :: "(string \<Rightarrow> int) \<Rightarrow> panelRow list \<Rightarrow> panelRow list" where
  "cumSumOver acc [] = []"
| "cumSumOver acc (r # rs) =
     (case amountIssued r of
        None \<Rightarrow> r\<lparr>totalIssued := None\<rparr> # cumSumOver acc rs
      | Some a \<Rightarrow>
          r\<lparr>totalIssued := Some (acc (cusip r) + a)\<rparr>
            # cumSumOver (acc(cusip r := acc (cusip r) + a)) rs)"

subsection \<open>Vintage\<close>

definition sameGroup :: "panelRow \<Rightarrow> panelRow \<Rightarrow> bool" where
  "sameGroup a b =
     (date a = date b \<and> securityType a = securityType b \<and> TIPS a = TIPS b \<and>
      floatingRate a = floatingRate b \<and> tenor a = tenor b)"

definition dropNulls :: "'a option list \<Rightarrow> 'a list" where
  "dropNulls vs = concat (map (\<lambda>v. case v of None \<Rightarrow> [] | Some x \<Rightarrow> [x]) vs)"

text \<open>
  \<open>rank(method="dense", descending=True)\<close> of a value among the values of its group:
  one more than the number of distinct values above it; the rank of a null is null.
\<close>

definition denseRankDesc :: "int option list \<Rightarrow> int option \<Rightarrow> int option" where
  "denseRankDesc vs v =
     (case v of
        None \<Rightarrow> None
      | Some x \<Rightarrow> Some (1 + int (length (remdups (filter (\<lambda>w. x < w) (dropNulls vs))))))"

definition rankVintage :: "panelRow list \<Rightarrow> panelRow list" where
  "rankVintage rows =
     map (\<lambda>r. r\<lparr>vintage :=
                 map_option (\<lambda>k. k - 1)
                   (denseRankDesc (map firstIssueDate (filter (sameGroup r) rows))
                      (firstIssueDate r))\<rparr>) rows"

definition isWhenIssued :: "panelRow \<Rightarrow> bool" where
  "isWhenIssued r = (lt3 (date r) (firstIssueDate r) = Some True)"

definition hasWhenIssued :: "panelRow list \<Rightarrow> panelRow \<Rightarrow> bool" where
  "hasWhenIssued rows r = list_ex isWhenIssued (filter (sameGroup r) rows)"

definition adjustVintage :: "panelRow list \<Rightarrow> panelRow list" where
  "adjustVintage rows =
     map (\<lambda>r. if hasWhenIssued rows r
              then r\<lparr>vintage := map_option (\<lambda>v. v - 1) (vintage r)\<rparr>
              else r) rows"

subsection \<open>The whole function\<close>

definition finalKey ::
  "panelRow \<Rightarrow> bool option \<times> bool option \<times> int desc \<times> string desc option \<times> int option \<times> int option"
  where
  "finalKey r =
     (floatingRate r, TIPS r, Desc (date r), map_option Desc (securityType r), tenor r,
      vintage r)"

definition buildPanel :: "panelRow list \<Rightarrow> panelRow list" where
  "buildPanel joined =
     (let filled = backwardFillStatic (forwardFillStatic (sort_key (\<lambda>r. (cusip r, date r)) joined));
          issued = sort_key cumSumKey (map setAmountIssued filled);
          ranked = adjustVintage (rankVintage (cumSumOver (\<lambda>_. 0) issued));
          weekdays = filter (\<lambda>r. weekday (date r) < 6) ranked
      in sort_key finalKey weekdays)"

text \<open>
  \<open>_createCusipPanel\<close>, given the value of \<open>today\<close> that line 484 reads from
  the clock. \<open>pl.concat\<close> (line 505) raises \<open>ValueError\<close> on an empty list of
  frames. The final \<open>select\<close> reorders the columns only.
\<close>

definition createCusipPanelAt :: "int \<Rightarrow> classified list \<Rightarrow> error + panelRow list" where
  "createCusipPanelAt today auctionsDf =
     (let allCusipDates = map (cusipDates today) (cusipDateRanges auctionsDf) in
      if allCusipDates = [] then Inl ValueError
      else
        (let completeDates = concat allCusipDates;
             auctionData = resolveFutureDated today (map (selectAuctionData auctionsDf) auctionsDf)
         in Inr (buildPanel (leftJoin completeDates auctionData))))"

text \<open>The function as the source has it: \<open>today = date.today()\<close>.\<close>

definition createCusipPanel :: "clock \<Rightarrow> classified list \<Rightarrow> error + panelRow list" where
  "createCusipPanel clk auctionsDf = createCusipPanelAt (date_today clk) auctionsDf"

section \<open>Example records\<close>

text \<open>
  An opening of cusip \<open>A\<close> with a term of 28 days, and its reopening 14 days later
  that was announced under another cusip.
\<close>

definition exOpening :: auction where
  "exOpening = \<lparr>auction.cusip = ''A'', security_type = ''Bill'', issue_date = 100,
     original_issue_date = None, maturity_date = 128, int_rate = None,
     total_accepted = Some 50, reopening = ''No'', inflation_index_security = ''No'',
     floating_rate = ''No'', announcemt_date = 95, announcemtd_cusip = None,
     auction_date = 97\<rparr>"

definition exReopening :: auction where
  "exReopening = \<lparr>auction.cusip = ''A'', security_type = ''Bill'', issue_date = 114,
     original_issue_date = Some 100, maturity_date = 128, int_rate = None,
     total_accepted = Some 30, reopening = ''Yes'', inflation_index_security = ''No'',
     floating_rate = ''No'', announcemt_date = 109, announcemtd_cusip = Some ''B'',
     auction_date = 111\<rparr>"

text \<open>
  A four-week bill: cusip, announcement day, issue day, maturity day and amount accepted.
\<close>

definition exBill :: "string \<Rightarrow> int \<Rightarrow> int \<Rightarrow> int \<Rightarrow> int option \<Rightarrow> classified" where
  "exBill c ann iss mat amt =
     auction.extend
       \<lparr>auction.cusip = c, security_type = ''Bill'', issue_date = iss,
        original_issue_date = None, maturity_date = mat, int_rate = None,
        total_accepted = amt, reopening = ''No'', inflation_index_security = ''No'',
        floating_rate = ''No'', announcemt_date = ann, announcemtd_cusip = None,
        auction_date = ann + 1\<rparr>
       (classified.fields None (Some 4))"


definition exSameDay :: "classified list" where
  "exSameDay = [exBill ''A'' 19723 19724 19752 (Some 50), exBill ''A'' 19723 19724 19752 (Some 20)]"

definition exFuture :: "classified list" where
  "exFuture = [exBill ''B'' 19723 19731 19759 (Some 20)]"






section \<open>Notions used in the statements and proofs\<close>

text \<open>
  The columns of a row that the amount step and the running sum settle, and what holds
  of them in the output.
\<close>

definition issuedView :: "panelRow \<Rightarrow> int \<times> string \<times> int option \<times> int option \<times> int option" where
  "issuedView r = (date r, cusip r, firstIssueDate r, amountIssued r, totalIssued r)"

definition issuedOk :: "int \<times> string \<times> int option \<times> int option \<times> int option \<Rightarrow> bool" where
  "issuedOk v =
     (case v of (d, c, fid, amt, tot) \<Rightarrow>
        amt \<noteq> None \<and> tot \<noteq> None \<and> (\<forall>f. fid = Some f \<and> d < f \<longrightarrow> amt = Some 0))"

text \<open>The amount and the total of a row, a null counting 0.\<close>

definition amountOf :: "panelRow \<Rightarrow> int" where
  "amountOf r = (case amountIssued r of None \<Rightarrow> 0 | Some a \<Rightarrow> a)"




text \<open>The key of a row and its amount.\<close>

definition keyAmount :: "panelRow \<Rightarrow> string \<times> int \<times> int" where
  "keyAmount r = (cusip r, date r, amountOf r)"

text \<open>A first issue date in the frame is the cusip's own, or null.\<close>

definition fidOk :: "(string \<Rightarrow> int option) \<Rightarrow> panelRow list \<Rightarrow> bool" where
  "fidOk fid rows = (\<forall>r \<in> set rows. firstIssueDate r = None \<or> firstIssueDate r = fid (cusip r))"

text \<open>A non-zero amount sits on or after the cusip's first issue date.\<close>

definition issuedAfterFirst :: "(string \<Rightarrow> int option) \<Rightarrow> string \<times> int \<times> int option \<Rightarrow> bool" where
  "issuedAfterFirst fid v =
     (case v of (c, d, amt) \<Rightarrow>
        \<forall>a. amt = Some a \<and> a \<noteq> 0 \<longrightarrow> (\<exists>f. fid c = Some f \<and> f \<le> d))"

text \<open>The frame that the left join of lines 548-552 returns.\<close>

definition joinedFrame :: "int \<Rightarrow> classified list \<Rightarrow> panelRow list" where
  "joinedFrame today df =
     leftJoin (concat (map (cusipDates today) (cusipDateRanges df)))
       (resolveFutureDated today (map (selectAuctionData df) df))"

text \<open>
  The number of auction records of cusip \<open>c\<close> that the join puts on day \<open>d\<close>:
  those issued on \<open>d\<close>, and on \<open>today\<close>, when no record of the cusip is issued
  today, also those issued after today.
\<close>

definition joinedRecords :: "int \<Rightarrow> classified list \<Rightarrow> string \<Rightarrow> int \<Rightarrow> nat" where
  "joinedRecords today df c d =
     length (filter (\<lambda>x. auction.cusip x = c \<and> issue_date x = d) df) +
     (if d = today \<and> \<not> list_ex (\<lambda>x. auction.cusip x = c \<and> issue_date x = today) df
      then length (filter (\<lambda>x. auction.cusip x = c \<and> today < issue_date x) df)
      else 0)"

text \<open>The amount accepted of a record, a null counting 0.\<close>

definition acceptedOf :: "classified \<Rightarrow> int" where
  "acceptedOf x = (case total_accepted x of None \<Rightarrow> 0 | Some v \<Rightarrow> v)"





section \<open>Properties of the tenor bands\<close>

lemma tenorBands_ascending: "sorted_wrt (\<lambda>b c. fst (snd b) < fst c) tenorBands"
  by (simp add: tenorBands_def)

lemma tenorBands_nth_disjoint:
  assumes "i < j" and "j < length tenorBands"
  shows "\<not> (inBand (tenorBands ! i) t \<and> inBand (tenorBands ! j) t)"
proof -
  have "fst (snd (tenorBands ! i)) < fst (tenorBands ! j)"
    using sorted_wrt_nth_less [OF tenorBands_ascending assms] .
  then show ?thesis
    by (auto simp: inBand_def)
qed

lemma tenorBands_set_disjoint:
  assumes "b \<in> set tenorBands" and "c \<in> set tenorBands" and "inBand b t" and "inBand c t"
  shows "b = c"
proof -
  obtain i where i: "i < length tenorBands" "tenorBands ! i = b"
    using assms(1) by (auto simp: in_set_conv_nth)
  obtain j where j: "j < length tenorBands" "tenorBands ! j = c"
    using assms(2) by (auto simp: in_set_conv_nth)
  have "\<not> i < j" using tenorBands_nth_disjoint [of i j t] i j assms(3,4) by auto
  moreover have "\<not> j < i" using tenorBands_nth_disjoint [of j i t] i j assms(3,4) by auto
  ultimately have "i = j" by simp
  with i j show ?thesis by simp
qed

lemma whenThenChain_None_iff:
  "whenThenChain bs t = None \<longleftrightarrow> (\<forall>b \<in> set bs. \<not> inBand b t)"
  by (induction bs) auto

lemma whenThenChain_Some_D:
  "whenThenChain bs t = Some v \<Longrightarrow> \<exists>b \<in> set bs. inBand b t \<and> snd (snd b) = v"
  by (induction bs) (auto split: if_splits)

lemma whenThenChain_order_free:
  assumes "set bs = set tenorBands"
  shows "whenThenChain bs t = whenThenChain tenorBands t"
proof (cases "whenThenChain bs t")
  case None
  then have "\<forall>b \<in> set tenorBands. \<not> inBand b t"
    using assms by (simp add: whenThenChain_None_iff)
  then have "whenThenChain tenorBands t = None"
    by (simp add: whenThenChain_None_iff)
  with None show ?thesis by simp
next
  case (Some v)
  then obtain b where b: "b \<in> set tenorBands" "inBand b t" "snd (snd b) = v"
    using whenThenChain_Some_D assms by blast
  then have "whenThenChain tenorBands t \<noteq> None"
    by (auto simp: whenThenChain_None_iff)
  then obtain w where w: "whenThenChain tenorBands t = Some w" by auto
  then obtain c where c: "c \<in> set tenorBands" "inBand c t" "snd (snd c) = w"
    using whenThenChain_Some_D by blast
  have "b = c" using tenorBands_set_disjoint b c by blast
  with b c Some w show ?thesis by simp
qed

section \<open>Properties of the classifier\<close>

lemma find_sorted_first:
  assumes "sorted (map (\<lambda>r. (auction.cusip r, issue_date r)) df)"
    and "find (\<lambda>x. auction.cusip x = c) df = Some e"
  shows "e \<in> set df \<and> auction.cusip e = c \<and> (\<forall>x \<in> set df. auction.cusip x = c \<longrightarrow> issue_date e \<le> issue_date x)"
proof -
  obtain i where i: "i < length df" "df ! i = e" "auction.cusip e = c" "\<forall>j<i. auction.cusip (df ! j) \<noteq> c"
    using assms(2) by (auto simp: find_Some_iff)
  have "issue_date e \<le> issue_date x" if x: "x \<in> set df" "auction.cusip x = c" for x
  proof -
    obtain k where k: "k < length df" "df ! k = x"
      using x(1) by (auto simp: in_set_conv_nth)
    have "\<not> k < i" using i(4) k x(2) by auto
    then have "i \<le> k" by simp
    then have "(auction.cusip e, issue_date e) \<le> (auction.cusip x, issue_date x)"
      using sorted_nth_mono [OF assms(1), of i k] i k by simp
    then show ?thesis using i(3) x(2) by (simp add: less_eq_prod_def)
  qed
  then show ?thesis using i by auto
qed

lemma find_cusip_Some:
  "r \<in> set df \<Longrightarrow> \<exists>e. find (\<lambda>x. auction.cusip x = auction.cusip r) df = Some e"
  by (cases "find (\<lambda>x. auction.cusip x = auction.cusip r) df") (auto simp: find_None_iff)

lemma isUnscheduledReopening_iff:
  "isUnscheduledReopening r = Some True \<longleftrightarrow>
     (announcemtd_cusip r \<notin> {None, Some ''null''} \<and> reopening r = ''Yes'')"
  by (cases "announcemtd_cusip r") (auto simp: isUnscheduledReopening_def and3_def neq3_def)

lemma classifyRow_fields:
  "auction.cusip (classifyRow df r) = auction.cusip r"
  "issue_date (classifyRow df r) = issue_date r"
  "announcemtd_cusip (classifyRow df r) = announcemtd_cusip r"
  "reopening (classifyRow df r) = reopening r"
  "auction.truncate (classifyRow df r) = r"
  "classified.tenor (classifyRow df r) = tenorOf (termToMaturityDays df r)"
  "classified.unscheduledReopeningDate (classifyRow df r) =
     whenThen (isUnscheduledReopening r) (Some (issue_date r)) None"
  by (simp_all add: classifyRow_def auction.defs classified.defs)

section \<open>Properties of the panel construction\<close>

subsection \<open>Views: columns a step leaves alone\<close>

lemma view_set_transfer:
  assumes "map \<phi> out = map \<phi> inp" and "\<forall>r \<in> set inp. G (\<phi> r)"
  shows "\<forall>r \<in> set out. G (\<phi> r)"
proof
  fix r assume "r \<in> set out"
  then have "\<phi> r \<in> set (map \<phi> out)" by simp
  then have "\<phi> r \<in> set (map \<phi> inp)" using assms(1) by simp
  then show "G (\<phi> r)" using assms(2) by auto
qed

lemma forwardFillOver_view:
  assumes "\<And>f r. \<phi> (upd f r) = \<phi> r"
  shows "map \<phi> (forwardFillOver col upd seen rows) = map \<phi> rows"
  by (induction rows arbitrary: seen) (auto simp: assms split: option.splits)

lemma forward_fill_view:
  assumes "\<And>f r. \<phi> (upd f r) = \<phi> r"
  shows "map \<phi> (forward_fill col upd rows) = map \<phi> rows"
  unfolding forward_fill_def using assms by (rule forwardFillOver_view)

lemma backward_fill_view:
  assumes "\<And>f r. \<phi> (upd f r) = \<phi> r"
  shows "map \<phi> (backward_fill col upd rows) = map \<phi> rows"
proof -
  have "map \<phi> (forwardFillOver col upd (\<lambda>_. None) (rev rows)) = map \<phi> (rev rows)"
    using assms by (rule forwardFillOver_view)
  then show ?thesis
    by (simp add: backward_fill_def rev_map [symmetric])
qed

lemma cumSumOver_view:
  assumes "\<And>f r. \<phi> (totalIssued_update f r) = \<phi> r"
  shows "map \<phi> (cumSumOver acc rows) = map \<phi> rows"
  by (induction rows arbitrary: acc) (auto simp: assms split: option.splits)

lemma rankVintage_view:
  assumes "\<And>f r. \<phi> (vintage_update f r) = \<phi> r"
  shows "map \<phi> (rankVintage rows) = map \<phi> rows"
  by (simp add: rankVintage_def assms comp_def)

lemma adjustVintage_view:
  assumes "\<And>f r. \<phi> (vintage_update f r) = \<phi> r"
  shows "map \<phi> (adjustVintage rows) = map \<phi> rows"
  by (simp add: adjustVintage_def assms comp_def if_distrib [of \<phi>])

lemma forwardFillStatic_view:
  assumes "\<And>f r. \<phi> (tenor_update f r) = \<phi> r"
    and "\<And>f r. \<phi> (coupon_update f r) = \<phi> r"
    and "\<And>f r. \<phi> (maturityDate_update f r) = \<phi> r"
    and "\<And>f r. \<phi> (announcementDate_update f r) = \<phi> r"
    and "\<And>f r. \<phi> (auctionDate_update f r) = \<phi> r"
    and "\<And>f r. \<phi> (unscheduledReopeningDate_update f r) = \<phi> r"
    and "\<And>f r. \<phi> (firstIssueDate_update f r) = \<phi> r"
    and "\<And>f r. \<phi> (TIPS_update f r) = \<phi> r"
    and "\<And>f r. \<phi> (floatingRate_update f r) = \<phi> r"
    and "\<And>f r. \<phi> (securityType_update f r) = \<phi> r"
  shows "map \<phi> (forwardFillStatic rows) = map \<phi> rows"
  unfolding forwardFillStatic_def
  by (simp add: forward_fill_view assms)

lemma backwardFillStatic_view:
  assumes "\<And>f r. \<phi> (tenor_update f r) = \<phi> r"
    and "\<And>f r. \<phi> (coupon_update f r) = \<phi> r"
    and "\<And>f r. \<phi> (maturityDate_update f r) = \<phi> r"
    and "\<And>f r. \<phi> (announcementDate_update f r) = \<phi> r"
    and "\<And>f r. \<phi> (auctionDate_update f r) = \<phi> r"
    and "\<And>f r. \<phi> (firstIssueDate_update f r) = \<phi> r"
    and "\<And>f r. \<phi> (TIPS_update f r) = \<phi> r"
    and "\<And>f r. \<phi> (floatingRate_update f r) = \<phi> r"
    and "\<And>f r. \<phi> (securityType_update f r) = \<phi> r"
  shows "map \<phi> (backwardFillStatic rows) = map \<phi> rows"
  unfolding backwardFillStatic_def
  by (simp add: backward_fill_view assms)

subsection \<open>Amounts are never null after the amount step\<close>

lemma setAmountIssued_amount:
  "\<exists>a. amountIssued (setAmountIssued r) = Some a"
  by (cases "amountIssued r") (auto simp: setAmountIssued_def whenThen_def fill_null_def)

lemma setAmountIssued_before_first_issue:
  "firstIssueDate r = Some f \<Longrightarrow> date r < f \<Longrightarrow> amountIssued (setAmountIssued r) = Some 0"
  by (simp add: setAmountIssued_def whenThen_def lt3_def)

lemma setAmountIssued_fields:
  "date (setAmountIssued r) = date r"
  "cusip (setAmountIssued r) = cusip r"
  "firstIssueDate (setAmountIssued r) = firstIssueDate r"
  "tenor (setAmountIssued r) = tenor r"
  by (simp_all add: setAmountIssued_def)

lemma cumSumOver_total:
  assumes "\<forall>r \<in> set rows. amountIssued r \<noteq> None"
  shows "\<forall>r \<in> set (cumSumOver acc rows). totalIssued r \<noteq> None"
  using assms by (induction rows arbitrary: acc) (auto split: option.splits)

lemma buildPanel_issuedOk: "\<forall>r \<in> set (buildPanel joined). issuedOk (issuedView r)"
proof -
  define filled where
    "filled = backwardFillStatic (forwardFillStatic (sort_key (\<lambda>r. (cusip r, date r)) joined))"
  define issued where "issued = sort_key cumSumKey (map setAmountIssued filled)"
  define summed where "summed = cumSumOver (\<lambda>_. 0) issued"
  define ranked where "ranked = adjustVintage (rankVintage summed)"
  have out: "buildPanel joined = sort_key finalKey (filter (\<lambda>r. weekday (date r) < 6) ranked)"
    by (simp add: buildPanel_def Let_def filled_def issued_def summed_def ranked_def)
  have i1: "\<forall>r \<in> set issued. amountIssued r \<noteq> None \<and>
      (\<forall>f. firstIssueDate r = Some f \<and> date r < f \<longrightarrow> amountIssued r = Some 0)"
    using setAmountIssued_amount setAmountIssued_before_first_issue
    by (fastforce simp: issued_def setAmountIssued_fields)
  have v1: "map (\<lambda>r. (date r, firstIssueDate r, amountIssued r)) summed =
      map (\<lambda>r. (date r, firstIssueDate r, amountIssued r)) issued"
    unfolding summed_def by (rule cumSumOver_view) simp
  have s1: "\<forall>r \<in> set summed. (case (date r, firstIssueDate r, amountIssued r) of
      (d, fid, amt) \<Rightarrow> amt \<noteq> None \<and> (\<forall>f. fid = Some f \<and> d < f \<longrightarrow> amt = Some 0))"
    by (rule view_set_transfer [OF v1]) (use i1 in auto)
  have s2: "\<forall>r \<in> set summed. totalIssued r \<noteq> None"
    unfolding summed_def by (rule cumSumOver_total) (use i1 in auto)
  have s3: "\<forall>r \<in> set summed. issuedOk (issuedView r)"
    using s1 s2 by (auto simp: issuedOk_def issuedView_def)
  have v2: "map issuedView ranked = map issuedView summed"
  proof -
    have "map issuedView ranked = map issuedView (rankVintage summed)"
      unfolding ranked_def by (rule adjustVintage_view) (simp add: issuedView_def)
    also have "\<dots> = map issuedView summed"
      by (rule rankVintage_view) (simp add: issuedView_def)
    finally show ?thesis .
  qed
  have "\<forall>r \<in> set ranked. issuedOk (issuedView r)"
    by (rule view_set_transfer [OF v2 s3])
  then show ?thesis by (simp add: out)
qed

lemma createCusipPanelAt_Inr:
  assumes "createCusipPanelAt today df = Inr panel"
  shows "panel = buildPanel (leftJoin (concat (map (cusipDates today) (cusipDateRanges df)))
           (resolveFutureDated today (map (selectAuctionData df) df)))"
  using assms by (simp add: createCusipPanelAt_def Let_def split: if_splits)

subsection \<open>The running sum\<close>







subsection \<open>Cusip, date and amount through the steps\<close>

lemma keyAmount_alt:
  "keyAmount = (\<lambda>x. (cusip x, date x, case amountIssued x of None \<Rightarrow> 0 | Some a \<Rightarrow> a))"
  by (auto simp: keyAmount_def amountOf_def fun_eq_iff)

lemma forwardFillOver_values:
  assumes upd_col: "\<And>f r. col (upd f r) = f (col r)"
    and upd_cusip: "\<And>f r. cusip (upd f r) = cusip r"
    and seen: "\<forall>c. G c (seen c)"
    and rows: "\<forall>r \<in> set rows. G (cusip r) (col r)"
  shows "\<forall>r \<in> set (forwardFillOver col upd seen rows). G (cusip r) (col r)"
  using seen rows
proof (induction rows arbitrary: seen)
  case Nil
  then show ?case by simp
next
  case (Cons r rs)
  have rest: "\<forall>x \<in> set rs. G (cusip x) (col x)" using Cons.prems(2) by simp
  show ?case
  proof (cases "col r")
    case None
    have "G (cusip r) (seen (cusip r))" using Cons.prems(1) by simp
    moreover have "\<forall>x \<in> set (forwardFillOver col upd seen rs). G (cusip x) (col x)"
      using Cons.IH [OF Cons.prems(1) rest] .
    ultimately show ?thesis
      using None by (simp add: upd_col upd_cusip)
  next
    case (Some v)
    define seen' where "seen' = seen(cusip r := Some v)"
    have "G (cusip r) (Some v)" using Cons.prems(2) Some by auto
    then have "\<forall>c. G c (seen' c)"
      using Cons.prems(1) by (simp add: seen'_def)
    then have "\<forall>x \<in> set (forwardFillOver col upd seen' rs). G (cusip x) (col x)"
      using Cons.IH [of seen'] rest by blast
    moreover have "forwardFillOver col upd seen (r # rs) = r # forwardFillOver col upd seen' rs"
      using Some by (simp add: seen'_def)
    ultimately show ?thesis
      using Cons.prems(2) by simp
  qed
qed

lemma fidOk_forward_fill_fid:
  assumes "fidOk fid rows"
  shows "fidOk fid (forward_fill firstIssueDate firstIssueDate_update rows)"
proof -
  have "\<forall>r \<in> set (forwardFillOver firstIssueDate firstIssueDate_update (\<lambda>_. None) rows).
      (\<lambda>c v. v = None \<or> v = fid c) (cusip r) (firstIssueDate r)"
    by (rule forwardFillOver_values) (use assms in \<open>auto simp: fidOk_def\<close>)
  then show ?thesis by (simp add: fidOk_def forward_fill_def)
qed

lemma fidOk_backward_fill_fid:
  assumes "fidOk fid rows"
  shows "fidOk fid (backward_fill firstIssueDate firstIssueDate_update rows)"
proof -
  have "\<forall>r \<in> set (forwardFillOver firstIssueDate firstIssueDate_update (\<lambda>_. None) (rev rows)).
      (\<lambda>c v. v = None \<or> v = fid c) (cusip r) (firstIssueDate r)"
    by (rule forwardFillOver_values) (use assms in \<open>auto simp: fidOk_def\<close>)
  then show ?thesis by (simp add: fidOk_def backward_fill_def)
qed

lemma fidOk_view:
  assumes "map (\<lambda>r. (cusip r, firstIssueDate r)) out = map (\<lambda>r. (cusip r, firstIssueDate r)) inp"
    and "fidOk fid inp"
  shows "fidOk fid out"
proof -
  have "\<forall>r \<in> set inp. (\<lambda>v. snd v = None \<or> snd v = fid (fst v)) (cusip r, firstIssueDate r)"
    using assms(2) by (simp add: fidOk_def)
  then have "\<forall>r \<in> set out. (\<lambda>v. snd v = None \<or> snd v = fid (fst v)) (cusip r, firstIssueDate r)"
    by (rule view_set_transfer [OF assms(1)])
  then show ?thesis by (simp add: fidOk_def)
qed

lemma fidOk_forward_fill_other:
  assumes "fidOk fid rows"
    and "\<And>f r. cusip (upd f r) = cusip r"
    and "\<And>f r. firstIssueDate (upd f r) = firstIssueDate r"
  shows "fidOk fid (forward_fill col upd rows)"
  by (rule fidOk_view [OF forward_fill_view assms(1)]) (simp add: assms)

lemma fidOk_backward_fill_other:
  assumes "fidOk fid rows"
    and "\<And>f r. cusip (upd f r) = cusip r"
    and "\<And>f r. firstIssueDate (upd f r) = firstIssueDate r"
  shows "fidOk fid (backward_fill col upd rows)"
  by (rule fidOk_view [OF backward_fill_view assms(1)]) (simp add: assms)

lemma fidOk_forwardFillStatic:
  assumes "fidOk fid rows"
  shows "fidOk fid (forwardFillStatic rows)"
proof -
  have 1: "fidOk fid (forward_fill tenor tenor_update rows)"
    by (rule fidOk_forward_fill_other [OF assms]) simp_all
  have 2: "fidOk fid (forward_fill coupon coupon_update (forward_fill tenor tenor_update rows))"
    by (rule fidOk_forward_fill_other [OF 1]) simp_all
  note 3 = fidOk_forward_fill_other [OF 2, of maturityDate_update maturityDate, simplified]
  note 4 = fidOk_forward_fill_other [OF 3, of announcementDate_update announcementDate, simplified]
  note 5 = fidOk_forward_fill_other [OF 4, of auctionDate_update auctionDate, simplified]
  note 6 = fidOk_forward_fill_other [OF 5, of unscheduledReopeningDate_update
      unscheduledReopeningDate, simplified]
  note 7 = fidOk_forward_fill_fid [OF 6]
  note 8 = fidOk_forward_fill_other [OF 7, of TIPS_update TIPS, simplified]
  note 9 = fidOk_forward_fill_other [OF 8, of floatingRate_update floatingRate, simplified]
  note 10 = fidOk_forward_fill_other [OF 9, of securityType_update securityType, simplified]
  show ?thesis unfolding forwardFillStatic_def by (rule 10)
qed

lemma fidOk_backwardFillStatic:
  assumes "fidOk fid rows"
  shows "fidOk fid (backwardFillStatic rows)"
proof -
  note 1 = fidOk_backward_fill_other [OF assms, of tenor_update tenor, simplified]
  note 2 = fidOk_backward_fill_other [OF 1, of coupon_update coupon, simplified]
  note 3 = fidOk_backward_fill_other [OF 2, of maturityDate_update maturityDate, simplified]
  note 4 = fidOk_backward_fill_other [OF 3, of announcementDate_update announcementDate, simplified]
  note 5 = fidOk_backward_fill_other [OF 4, of auctionDate_update auctionDate, simplified]
  note 7 = fidOk_backward_fill_fid [OF 5]
  note 8 = fidOk_backward_fill_other [OF 7, of TIPS_update TIPS, simplified]
  note 9 = fidOk_backward_fill_other [OF 8, of floatingRate_update floatingRate, simplified]
  note 10 = fidOk_backward_fill_other [OF 9, of securityType_update securityType, simplified]
  show ?thesis unfolding backwardFillStatic_def by (rule 10)
qed

lemma setAmountIssued_keyAmount:
  assumes "firstIssueDate r = None \<or> firstIssueDate r = fid (cusip r)"
    and "issuedAfterFirst fid (cusip r, date r, amountIssued r)"
  shows "keyAmount (setAmountIssued r) = keyAmount r"
proof (cases "amountIssued r")
  case None
  then show ?thesis
    by (simp add: keyAmount_def amountOf_def setAmountIssued_def whenThen_def fill_null_def)
next
  case (Some a)
  show ?thesis
  proof (cases "a = 0")
    case True
    then show ?thesis using Some
      by (simp add: keyAmount_def amountOf_def setAmountIssued_def whenThen_def fill_null_def)
  next
    case False
    then obtain f where f: "fid (cusip r) = Some f" "f \<le> date r"
      using assms(2) Some by (auto simp: issuedAfterFirst_def)
    then have "lt3 (date r) (firstIssueDate r) \<noteq> Some True"
      using assms(1) by (auto simp: lt3_def)
    then show ?thesis using Some
      by (simp add: keyAmount_def amountOf_def setAmountIssued_def whenThen_def fill_null_def)
  qed
qed

lemma buildPanel_keyAmount:
  assumes fid: "fidOk fid joined"
    and amt: "\<forall>r \<in> set joined. issuedAfterFirst fid (cusip r, date r, amountIssued r)"
  shows "mset (map keyAmount (buildPanel joined)) =
         filter_mset (\<lambda>v. weekday (fst (snd v)) < 6) (mset (map keyAmount joined))"
proof -
  define sorted1 where "sorted1 = sort_key (\<lambda>r. (cusip r, date r)) joined"
  define filled where "filled = backwardFillStatic (forwardFillStatic sorted1)"
  define issued where "issued = sort_key cumSumKey (map setAmountIssued filled)"
  define summed where "summed = cumSumOver (\<lambda>_. 0) issued"
  define ranked where "ranked = adjustVintage (rankVintage summed)"
  have out: "buildPanel joined = sort_key finalKey (filter (\<lambda>r. weekday (date r) < 6) ranked)"
    by (simp add: buildPanel_def Let_def sorted1_def filled_def issued_def summed_def ranked_def)
  have s1: "mset sorted1 = mset joined" by (simp add: sorted1_def)
  have f1: "fidOk fid sorted1" using fid by (simp add: fidOk_def sorted1_def)
  have f2: "fidOk fid filled"
    unfolding filled_def by (intro fidOk_backwardFillStatic fidOk_forwardFillStatic f1)
  have "map (\<lambda>r. (cusip r, date r, amountIssued r)) filled =
      map (\<lambda>r. (cusip r, date r, amountIssued r)) (forwardFillStatic sorted1)"
    unfolding filled_def by (rule backwardFillStatic_view) simp_all
  also have "\<dots> = map (\<lambda>r. (cusip r, date r, amountIssued r)) sorted1"
    by (rule forwardFillStatic_view) simp_all
  finally have v1: "map (\<lambda>r. (cusip r, date r, amountIssued r)) filled =
      map (\<lambda>r. (cusip r, date r, amountIssued r)) sorted1" .
  have "\<forall>r \<in> set sorted1. issuedAfterFirst fid (cusip r, date r, amountIssued r)"
    using amt by (simp add: sorted1_def)
  then have a2: "\<forall>r \<in> set filled. issuedAfterFirst fid (cusip r, date r, amountIssued r)"
    by (rule view_set_transfer [OF v1])
  have "map keyAmount filled = map keyAmount sorted1"
  proof -
    have "map (\<lambda>v. (fst v, fst (snd v), case snd (snd v) of None \<Rightarrow> 0 | Some a \<Rightarrow> a))
        (map (\<lambda>r. (cusip r, date r, amountIssued r)) filled) =
      map (\<lambda>v. (fst v, fst (snd v), case snd (snd v) of None \<Rightarrow> 0 | Some a \<Rightarrow> a))
        (map (\<lambda>r. (cusip r, date r, amountIssued r)) sorted1)"
      using v1 by simp
    then show ?thesis
      by (simp add: keyAmount_alt comp_def)
  qed
  then have k1: "mset (map keyAmount filled) = mset (map keyAmount joined)"
    using s1 by (metis mset_map)
  have "keyAmount (setAmountIssued r) = keyAmount r" if "r \<in> set filled" for r
    using f2 a2 that setAmountIssued_keyAmount [of r fid] by (simp add: fidOk_def)
  then have m1: "map keyAmount (map setAmountIssued filled) = map keyAmount filled"
    by simp
  have "mset (map keyAmount issued) = mset (map keyAmount (map setAmountIssued filled))"
    by (simp add: issued_def multiset.map_comp)
  also have "\<dots> = mset (map keyAmount filled)"
    by (simp only: m1)
  finally have k2: "mset (map keyAmount issued) = mset (map keyAmount joined)"
    using k1 by simp
  have "map keyAmount summed = map keyAmount issued"
    unfolding summed_def by (rule cumSumOver_view) (simp add: keyAmount_def amountOf_def)
  moreover have "map keyAmount ranked = map keyAmount summed"
  proof -
    have "map keyAmount ranked = map keyAmount (rankVintage summed)"
      unfolding ranked_def by (rule adjustVintage_view) (simp add: keyAmount_def amountOf_def)
    also have "\<dots> = map keyAmount summed"
      by (rule rankVintage_view) (simp add: keyAmount_def amountOf_def)
    finally show ?thesis .
  qed
  ultimately have k3: "mset (map keyAmount ranked) = mset (map keyAmount joined)"
    using k2 by simp
  have fm: "map keyAmount (filter (\<lambda>r. weekday (date r) < 6) ranked) =
      filter (\<lambda>v. weekday (fst (snd v)) < 6) (map keyAmount ranked)"
    by (simp add: filter_map comp_def keyAmount_def)
  have "mset (map keyAmount (buildPanel joined)) =
      mset (map keyAmount (filter (\<lambda>r. weekday (date r) < 6) ranked))"
    by (simp add: out)
  also have "\<dots> = mset (filter (\<lambda>v. weekday (fst (snd v)) < 6) (map keyAmount ranked))"
    by (simp only: fm)
  also have "\<dots> = filter_mset (\<lambda>v. weekday (fst (snd v)) < 6) (mset (map keyAmount ranked))"
    by (simp only: mset_filter)
  finally show ?thesis by (simp only: k3)
qed

subsection \<open>First issue date and the calendar\<close>

lemma fold_min_le_init: "fold min xs (x::int) \<le> x"
proof (induction xs arbitrary: x)
  case Nil
  then show ?case by simp
next
  case (Cons y ys)
  have "fold min ys (min y x) \<le> min y x" by (rule Cons.IH)
  then show ?case by simp
qed

lemma fold_min_le_member: "y \<in> set xs \<Longrightarrow> fold min xs (x::int) \<le> y"
proof (induction xs arbitrary: x)
  case Nil
  then show ?case by simp
next
  case (Cons z zs)
  show ?case
  proof (cases "y = z")
    case True
    have "fold min zs (min z x) \<le> min z x" by (rule fold_min_le_init)
    then show ?thesis using True by simp
  next
    case False
    then have "y \<in> set zs" using Cons.prems by simp
    then show ?thesis using Cons.IH by simp
  qed
qed

lemma fold_min_member: "fold min xs (x::int) \<in> insert x (set xs)"
proof (induction xs arbitrary: x)
  case Nil
  then show ?case by simp
next
  case (Cons z zs)
  have "fold min zs (min z x) \<in> insert (min z x) (set zs)" by (rule Cons.IH)
  moreover have "min z x = z \<or> min z x = x" by (simp add: min_def)
  ultimately have "fold min zs (min z x) \<in> insert x (insert z (set zs))" by auto
  then show ?case by simp
qed

lemma firstIssueDateOver_le:
  assumes "a \<in> set df"
  shows "\<exists>f. firstIssueDateOver df (auction.cusip a) = Some f \<and> f \<le> issue_date a"
proof -
  define g where "g = filter (\<lambda>x. auction.cusip x = auction.cusip a) df"
  have mem: "a \<in> set g" using assms by (simp add: g_def)
  then obtain x xs where g: "g = x # xs" by (cases g) auto
  have "fold min (map issue_date xs) (issue_date x) \<le> issue_date a"
  proof (cases "a = x")
    case True
    then show ?thesis by (simp add: fold_min_le_init)
  next
    case False
    then have "issue_date a \<in> set (map issue_date xs)" using mem g by auto
    then show ?thesis by (rule fold_min_le_member)
  qed
  then show ?thesis
    using g by (simp add: firstIssueDateOver_def g_def [symmetric])
qed

lemma groupAgg_Some:
  assumes "groupAgg g = Some (s, e)"
  shows "(\<forall>x \<in> set g. s \<le> announcemt_date x) \<and> (\<exists>x \<in> set g. s = announcemt_date x) \<and>
         (\<exists>x \<in> set g. e = maturity_date x)"
proof -
  obtain x xs where g: "g = x # xs" using assms by (cases g) (auto simp: groupAgg_def)
  have s: "s = fold min (map announcemt_date xs) (announcemt_date x)" and e: "e = maturity_date x"
    using assms g by (auto simp: groupAgg_def)
  have "s \<le> announcemt_date x" unfolding s by (rule fold_min_le_init)
  moreover have "s \<le> announcemt_date y" if "y \<in> set xs" for y
    unfolding s using that by (intro fold_min_le_member) simp
  moreover have "s \<in> insert (announcemt_date x) (set (map announcemt_date xs))"
    unfolding s by (rule fold_min_member)
  ultimately show ?thesis using g e by auto
qed

lemma set_map_filter: "set (List.map_filter f xs) = {y. \<exists>x \<in> set xs. f x = Some y}"
  by (induction xs) (auto simp: List.map_filter_simps split: option.splits)

lemma cusipDateRanges_set:
  "(c, s, e) \<in> set (cusipDateRanges df) \<longleftrightarrow>
     c \<in> auction.cusip ` set df \<and> groupAgg (filter (\<lambda>x. auction.cusip x = c) df) = Some (s, e)"
  by (auto simp: cusipDateRanges_def set_map_filter)

lemma cusipDateRanges_fst:
  "map fst (cusipDateRanges df) = remdups (map auction.cusip df)"
proof -
  have ne: "groupAgg (filter (\<lambda>x. auction.cusip x = c) df) \<noteq> None"
    if "c \<in> set (remdups (map auction.cusip df))" for c
  proof -
    have "c \<in> auction.cusip ` set df" using that by simp
    then obtain a where "a \<in> set df" "c = auction.cusip a" by (rule imageE)
    then have "filter (\<lambda>x. auction.cusip x = c) df \<noteq> []"
      by (auto simp: filter_empty_conv)
    then show ?thesis by (auto simp: groupAgg_def split: list.splits)
  qed
  have "map fst (List.map_filter
      (\<lambda>c. map_option (\<lambda>se. (c, se)) (groupAgg (filter (\<lambda>x. auction.cusip x = c) df))) cs) = cs"
    if "\<forall>c \<in> set cs. groupAgg (filter (\<lambda>x. auction.cusip x = c) df) \<noteq> None" for cs
    using that by (induction cs) (auto simp: List.map_filter_def)
  then show ?thesis
    unfolding cusipDateRanges_def using ne by blast
qed

lemma cusipDateRanges_exists:
  assumes "a \<in> set df"
  shows "\<exists>s e. (auction.cusip a, s, e) \<in> set (cusipDateRanges df)"
proof -
  have "auction.cusip a \<in> set (map fst (cusipDateRanges df))"
    using assms by (simp add: cusipDateRanges_fst)
  then show ?thesis by force
qed

lemma calendar_of_cusip:
  assumes "distinct (map fst ranges)" and "(c, s, e) \<in> set ranges"
  shows "filter (\<lambda>slot. fst slot = c) (concat (map (cusipDates today) ranges)) =
         map (\<lambda>d. (c, d)) [s..min e today]"
  using assms
proof (induction ranges)
  case Nil
  then show ?case by simp
next
  case (Cons x xs)
  obtain c' s' e' where x: "x = (c', s', e')" by (cases x) auto
  show ?case
  proof (cases "(c, s, e) = x")
    case True
    from True have fx: "fst x = c" by auto
    have "fst x \<notin> set (map fst xs)" using Cons.prems(1) by simp
    then have "c \<notin> fst ` set xs" using fx by simp
    moreover have "fst slot \<in> fst ` set xs"
      if slot_in: "slot \<in> set (concat (map (cusipDates today) xs))" for slot
    proof -
      obtain y where y: "y \<in> set xs" "slot \<in> set (cusipDates today y)"
        using slot_in unfolding set_concat set_map by blast
      then have "fst slot = fst y" by (auto simp: cusipDates_def split: prod.splits)
      then show ?thesis using y(1) by simp
    qed
    ultimately have "filter (\<lambda>slot. fst slot = c) (concat (map (cusipDates today) xs)) = []"
      unfolding filter_empty_conv by blast
    
    moreover have "filter (\<lambda>slot. fst slot = c) (cusipDates today (c, s, e)) =
        map (\<lambda>d. (c, d)) [s..min e today]"
      by (simp add: cusipDates_def filter_map comp_def)
    ultimately show ?thesis using True [symmetric]
      by simp
  next
    case False
    then have in_xs: "(c, s, e) \<in> set xs" using Cons.prems(2) by auto
    then have "c \<in> fst ` set xs" by force
    then have "c' \<noteq> c" using Cons.prems(1) x by auto
    then have "filter (\<lambda>slot. fst slot = c) (cusipDates today x) = []"
      by (auto simp: filter_empty_conv cusipDates_def x)
    then show ?thesis using Cons.IH in_xs Cons.prems(1) by simp
  qed
qed

subsection \<open>The left join\<close>

lemma joinSlot_keys:
  "r \<in> set (joinSlot ad slot) \<Longrightarrow> cusip r = fst slot \<and> date r = snd slot"
proof -
  assume r: "r \<in> set (joinSlot ad slot)"
  show ?thesis
  proof (cases "filter (\<lambda>r. cusip r = fst slot \<and> date r = snd slot) ad")
    case Nil
    then show ?thesis using r by (simp add: joinSlot_def nullRow_def)
  next
    case (Cons m ms)
    then have "r \<in> set (filter (\<lambda>r. cusip r = fst slot \<and> date r = snd slot) ad)"
      using r by (simp add: joinSlot_def)
    then show ?thesis by simp
  qed
qed

lemma joinSlot_members:
  assumes "r \<in> set (joinSlot ad slot)"
  shows "r \<in> set ad \<or> r = nullRow (fst slot) (snd slot)"
proof (cases "filter (\<lambda>r. cusip r = fst slot \<and> date r = snd slot) ad")
  case Nil
  then show ?thesis using assms by (simp add: joinSlot_def)
next
  case (Cons m ms)
  then have "r \<in> set (filter (\<lambda>r. cusip r = fst slot \<and> date r = snd slot) ad)"
    using assms by (simp add: joinSlot_def)
  then show ?thesis by simp
qed

lemma leftJoin_members:
  "r \<in> set (leftJoin cal ad) \<Longrightarrow> r \<in> set ad \<or> (\<exists>c d. r = nullRow c d)"
  by (auto simp: leftJoin_def dest: joinSlot_members)

lemma joinSlot_length:
  "length (joinSlot ad slot) =
     max 1 (length (filter (\<lambda>r. cusip r = fst slot \<and> date r = snd slot) ad))"
  by (cases "filter (\<lambda>r. cusip r = fst slot \<and> date r = snd slot) ad")
     (simp_all add: joinSlot_def)

lemma joinSlot_filter_key:
  "filter (\<lambda>r. cusip r = c \<and> date r = d) (joinSlot ad slot) =
     (if slot = (c, d) then joinSlot ad slot else [])"
proof (cases "slot = (c, d)")
  case True
  then have "\<forall>r \<in> set (joinSlot ad slot). cusip r = c \<and> date r = d"
    using joinSlot_keys by fastforce
  then show ?thesis using True by simp
next
  case False
  then have "\<forall>r \<in> set (joinSlot ad slot). \<not> (cusip r = c \<and> date r = d)"
    using joinSlot_keys by (metis prod.collapse)
  then show ?thesis using False by (simp add: filter_empty_conv)
qed

lemma leftJoin_count:
  "length (filter (\<lambda>r. cusip r = c \<and> date r = d) (leftJoin cal ad)) =
     count_list cal (c, d) * max 1 (length (filter (\<lambda>r. cusip r = c \<and> date r = d) ad))"
proof (induction cal)
  case Nil
  then show ?case by (simp add: leftJoin_def)
next
  case (Cons slot cal)
  have "length (filter (\<lambda>r. cusip r = c \<and> date r = d) (joinSlot ad slot)) =
      (if slot = (c, d) then max 1 (length (filter (\<lambda>r. cusip r = c \<and> date r = d) ad)) else 0)"
    by (auto simp: joinSlot_filter_key joinSlot_length)
  then show ?case
    using Cons.IH by (simp add: leftJoin_def)
qed

lemma joinSlot_amount:
  "sum_list (map amountOf (joinSlot ad slot)) =
     sum_list (map amountOf (filter (\<lambda>r. cusip r = fst slot \<and> date r = snd slot) ad))"
  by (cases "filter (\<lambda>r. cusip r = fst slot \<and> date r = snd slot) ad")
     (simp_all add: joinSlot_def nullRow_def amountOf_def)

lemma joinSlot_filter_cusip:
  "filter (\<lambda>r. cusip r = c \<and> P (date r)) (joinSlot ad slot) =
     (if fst slot = c \<and> P (snd slot) then joinSlot ad slot else [])"
proof (cases "fst slot = c \<and> P (snd slot)")
  case True
  then have "\<forall>r \<in> set (joinSlot ad slot). cusip r = c \<and> P (date r)"
    using joinSlot_keys by fastforce
  then show ?thesis using True by simp
next
  case False
  then have "\<forall>r \<in> set (joinSlot ad slot). \<not> (cusip r = c \<and> P (date r))"
    using joinSlot_keys by metis
  then have "filter (\<lambda>r. cusip r = c \<and> P (date r)) (joinSlot ad slot) = []"
    unfolding filter_empty_conv .
  then show ?thesis by (simp only: False if_False)
qed

lemma leftJoin_amount:
  "sum_list (map amountOf (filter (\<lambda>r. cusip r = c \<and> P (date r)) (leftJoin cal ad))) =
     sum_list (map (\<lambda>slot. sum_list (map amountOf
         (filter (\<lambda>r. cusip r = fst slot \<and> date r = snd slot) ad)))
       (filter (\<lambda>slot. fst slot = c \<and> P (snd slot)) cal))"
proof (induction cal)
  case Nil
  then show ?case by (simp add: leftJoin_def)
next
  case (Cons slot cal)
  then show ?case
    by (simp add: leftJoin_def joinSlot_filter_cusip joinSlot_amount)
qed

lemma sum_list_filter_disjoint:
  assumes "\<forall>r \<in> set xs. \<not> (A r \<and> B r)"
  shows "sum_list (map (h :: 'a \<Rightarrow> int) (filter (\<lambda>r. A r \<or> B r) xs)) =
         sum_list (map h (filter A xs)) + sum_list (map h (filter B xs))"
  using assms by (induction xs) auto

lemma sum_over_distinct_dates:
  assumes "distinct ds"
  shows "sum_list (map (\<lambda>d. sum_list (map amountOf (filter (\<lambda>r. cusip r = c \<and> date r = d) ad))) ds) =
         sum_list (map amountOf (filter (\<lambda>r. cusip r = c \<and> date r \<in> set ds) ad))"
  using assms
proof (induction ds)
  case Nil
  then show ?case by simp
next
  case (Cons d ds)
  have dis: "\<forall>r \<in> set ad. \<not> ((cusip r = c \<and> date r = d) \<and> (cusip r = c \<and> date r \<in> set ds))"
    using Cons.prems by auto
  have "filter (\<lambda>r. cusip r = c \<and> date r \<in> set (d # ds)) ad =
      filter (\<lambda>r. (cusip r = c \<and> date r = d) \<or> (cusip r = c \<and> date r \<in> set ds)) ad"
    by (rule filter_cong) auto
  then show ?case
    using Cons.IH Cons.prems sum_list_filter_disjoint [OF dis, of amountOf] by simp
qed

subsection \<open>Future-dated records\<close>

lemma redateToToday_fields:
  "cusip (redateToToday today r) = cusip r"
  "date (redateToToday today r) = today"
  "amountIssued (redateToToday today r) = Some 0"
  "issuanceType (redateToToday today r) = None"
  "unscheduledReopeningDate (redateToToday today r) = None"
  "firstIssueDate (redateToToday today r) = firstIssueDate r"
  by (simp_all add: redateToToday_def)

lemma resolveFutureDated_cusip:
  "filter (\<lambda>r. cusip r = c) (resolveFutureDated today ad) =
     filter (\<lambda>r. cusip r = c \<and> date r \<le> today) ad @
     (if \<exists>r \<in> set ad. cusip r = c \<and> date r = today then []
      else map (redateToToday today) (filter (\<lambda>r. cusip r = c \<and> date r > today) ad))"
proof (cases "filter (\<lambda>r. date r > today) ad = []")
  case True
  then have all: "\<forall>r \<in> set ad. date r \<le> today"
    by (auto simp: filter_empty_conv)
  have 1: "resolveFutureDated today ad = ad"
    using True by (simp add: resolveFutureDated_def)
  have 2: "filter (\<lambda>r. cusip r = c \<and> date r \<le> today) ad = filter (\<lambda>r. cusip r = c) ad"
    by (rule filter_cong) (use all in auto)
  have 3: "filter (\<lambda>r. cusip r = c \<and> date r > today) ad = []"
    using all by (auto simp: filter_empty_conv)
  show ?thesis by (simp add: 1 2 3)
next
  case False
  define withToday where "withToday = set (map cusip (filter (\<lambda>r. date r = today) ad))"
  define fwt where
    "fwt = filter (\<lambda>r. cusip r \<notin> withToday) (filter (\<lambda>r. date r > today) ad)"
  have wt: "c \<in> withToday \<longleftrightarrow> (\<exists>r \<in> set ad. cusip r = c \<and> date r = today)"
    by (auto simp: withToday_def)
  have res: "resolveFutureDated today ad =
      filter (\<lambda>r. date r \<le> today) ad @ map (redateToToday today) fwt"
    using False by (cases "fwt = []") (simp_all add: resolveFutureDated_def Let_def fwt_def withToday_def)
  have a: "filter (\<lambda>r. cusip r = c) (filter (\<lambda>r. date r \<le> today) ad) =
      filter (\<lambda>r. cusip r = c \<and> date r \<le> today) ad"
    by (simp add: conj_commute)
  have b: "filter (\<lambda>r. cusip r = c) (map (redateToToday today) fwt) =
      map (redateToToday today) (filter (\<lambda>r. cusip r = c) fwt)"
    by (simp add: filter_map comp_def redateToToday_fields)
  have c: "filter (\<lambda>r. cusip r = c) fwt =
      (if c \<in> withToday then [] else filter (\<lambda>r. cusip r = c \<and> date r > today) ad)"
  proof (cases "c \<in> withToday")
    case True
    then show ?thesis by (auto simp: fwt_def filter_empty_conv)
  next
    case False
    have "filter (\<lambda>r. cusip r = c) fwt = filter (\<lambda>r. cusip r = c \<and> date r > today) ad"
      unfolding fwt_def filter_filter by (rule filter_cong) (use False in auto)
    then show ?thesis using False by simp
  qed
  show ?thesis
    unfolding res filter_append a b c wt by auto
qed

lemma resolveFutureDated_members:
  assumes "r \<in> set (resolveFutureDated today ad)"
  shows "r \<in> set ad \<or> (\<exists>x \<in> set ad. r = redateToToday today x)"
proof -
  have "r \<in> set (filter (\<lambda>x. cusip x = cusip r) (resolveFutureDated today ad))"
    using assms by simp
  then show ?thesis
    unfolding resolveFutureDated_cusip by (auto split: if_splits)
qed


subsection \<open>The joined frame of \<open>_createCusipPanel\<close>\<close>

lemma createCusipPanelAt_joined:
  "createCusipPanelAt today df = Inr panel \<Longrightarrow> panel = buildPanel (joinedFrame today df)"
  unfolding joinedFrame_def by (rule createCusipPanelAt_Inr)

lemma selectAuctionData_fields:
  "cusip (selectAuctionData df a) = auction.cusip a"
  "date (selectAuctionData df a) = issue_date a"
  "amountIssued (selectAuctionData df a) = total_accepted a"
  "firstIssueDate (selectAuctionData df a) = firstIssueDateOver df (auction.cusip a)"
  by (simp_all add: selectAuctionData_def)

lemma joinedFrame_members:
  assumes "r \<in> set (joinedFrame today df)"
  shows "(\<exists>c d. r = nullRow c d) \<or> (\<exists>a \<in> set df. r = selectAuctionData df a) \<or>
         (\<exists>a \<in> set df. r = redateToToday today (selectAuctionData df a))"
proof -
  have "r \<in> set (resolveFutureDated today (map (selectAuctionData df) df)) \<or>
      (\<exists>c d. r = nullRow c d)"
    using assms leftJoin_members unfolding joinedFrame_def by blast
  then show ?thesis
    using resolveFutureDated_members [of r today "map (selectAuctionData df) df"] by auto
qed

lemma joinedFrame_fidOk: "fidOk (firstIssueDateOver df) (joinedFrame today df)"
  unfolding fidOk_def
proof
  fix r assume "r \<in> set (joinedFrame today df)"
  then show "firstIssueDate r = None \<or> firstIssueDate r = firstIssueDateOver df (cusip r)"
    using joinedFrame_members [of r today df]
    by (auto simp: nullRow_def selectAuctionData_fields redateToToday_fields)
qed

lemma joinedFrame_issuedAfterFirst:
  assumes "r \<in> set (joinedFrame today df)"
  shows "issuedAfterFirst (firstIssueDateOver df) (cusip r, date r, amountIssued r)"
proof -
  consider (null) c d where "r = nullRow c d"
    | (sel) a where "a \<in> set df" "r = selectAuctionData df a"
    | (red) a where "a \<in> set df" "r = redateToToday today (selectAuctionData df a)"
    using joinedFrame_members [OF assms] by blast
  then show ?thesis
  proof cases
    case null
    then show ?thesis by (simp add: issuedAfterFirst_def nullRow_def)
  next
    case sel
    then show ?thesis
      using firstIssueDateOver_le [OF sel(1)]
      by (auto simp: issuedAfterFirst_def selectAuctionData_fields)
  next
    case red
    then show ?thesis by (simp add: issuedAfterFirst_def redateToToday_fields)
  qed
qed


lemma panel_keyAmount:
  assumes "createCusipPanelAt today df = Inr panel"
  shows "mset (map keyAmount panel) =
         filter_mset (\<lambda>v. weekday (fst (snd v)) < 6) (mset (map keyAmount (joinedFrame today df)))"
  unfolding createCusipPanelAt_joined [OF assms]
  by (rule buildPanel_keyAmount [OF joinedFrame_fidOk]) (use joinedFrame_issuedAfterFirst in blast)

subsection \<open>Counting rows and summing amounts\<close>

lemma resolveFutureDated_count:
  assumes "d \<le> today"
  shows "length (filter (\<lambda>r. cusip r = c \<and> date r = d)
            (resolveFutureDated today (map (selectAuctionData df) df))) =
         joinedRecords today df c d"
proof -
  define ad where "ad = map (selectAuctionData df) df"
  have split: "filter (\<lambda>r. cusip r = c \<and> date r = d) xs =
      filter (\<lambda>r. date r = d) (filter (\<lambda>r. cusip r = c) xs)" for xs :: "panelRow list"
    by (simp add: conj_commute)
  have 1: "filter (\<lambda>r. date r = d) (filter (\<lambda>r. cusip r = c \<and> date r \<le> today) ad) =
      filter (\<lambda>r. cusip r = c \<and> date r = d) ad"
    unfolding filter_filter by (rule filter_cong) (use assms in auto)
  have 2: "length (filter (\<lambda>r. date r = d) (map (redateToToday today) xs)) =
      (if d = today then length xs else 0)" for xs
    by (simp add: filter_map comp_def redateToToday_fields)
  have 3: "length (filter (\<lambda>r. cusip r = c \<and> P (date r)) ad) =
      length (filter (\<lambda>x. auction.cusip x = c \<and> P (issue_date x)) df)" for P
    by (simp add: ad_def filter_map comp_def selectAuctionData_fields)
  have 4: "(\<exists>r \<in> set ad. cusip r = c \<and> date r = today) \<longleftrightarrow>
      list_ex (\<lambda>x. auction.cusip x = c \<and> issue_date x = today) df"
    by (auto simp: ad_def list_ex_iff selectAuctionData_fields)
  have 5: "filter (\<lambda>r. cusip r = c \<and> date r = d) (resolveFutureDated today ad) =
      filter (\<lambda>r. cusip r = c \<and> date r = d) ad @
      filter (\<lambda>r. date r = d)
        (if \<exists>r \<in> set ad. cusip r = c \<and> date r = today then []
         else map (redateToToday today) (filter (\<lambda>r. cusip r = c \<and> date r > today) ad))"
    unfolding split [of "resolveFutureDated today ad"] resolveFutureDated_cusip filter_append 1 ..
  show ?thesis
  proof (cases "\<exists>r \<in> set ad. cusip r = c \<and> date r = today")
    case True
    then have "list_ex (\<lambda>x. auction.cusip x = c \<and> issue_date x = today) df"
      using 4 by simp
    then have "joinedRecords today df c d =
        length (filter (\<lambda>x. auction.cusip x = c \<and> issue_date x = d) df)"
      by (simp add: joinedRecords_def)
    moreover have "length (filter (\<lambda>r. cusip r = c \<and> date r = d) (resolveFutureDated today ad)) =
        length (filter (\<lambda>r. cusip r = c \<and> date r = d) ad)"
      unfolding 5 using True by simp
    ultimately show ?thesis
      unfolding ad_def [symmetric] using 3 [of "\<lambda>x. x = d"] by simp
  next
    case False
    then have "\<not> list_ex (\<lambda>x. auction.cusip x = c \<and> issue_date x = today) df"
      using 4 by simp
    then have "joinedRecords today df c d =
        length (filter (\<lambda>x. auction.cusip x = c \<and> issue_date x = d) df) +
        (if d = today then length (filter (\<lambda>x. auction.cusip x = c \<and> today < issue_date x) df)
         else 0)"
      by (simp add: joinedRecords_def)
    moreover have "length (filter (\<lambda>r. cusip r = c \<and> date r = d) (resolveFutureDated today ad)) =
        length (filter (\<lambda>r. cusip r = c \<and> date r = d) ad) +
        (if d = today then length (filter (\<lambda>r. cusip r = c \<and> today < date r) ad) else 0)"
      unfolding 5 length_append if_not_P [OF False] 2 ..
    ultimately show ?thesis
      unfolding ad_def [symmetric] using 3 [of "\<lambda>x. x = d"] 3 [of "\<lambda>x. today < x"] by simp
  qed
qed

lemma distinct_count_eq:
  "distinct xs \<Longrightarrow> length (filter (\<lambda>x. x = d) xs) = (if d \<in> set xs then 1 else 0)"
  by (induction xs) auto

lemma calendar_count:
  assumes "(c, s, e) \<in> set (cusipDateRanges df)"
  shows "count_list (concat (map (cusipDates today) (cusipDateRanges df))) (c, d) =
         (if s \<le> d \<and> d \<le> min e today then 1 else 0)"
proof -
  define cal where "cal = concat (map (cusipDates today) (cusipDateRanges df))"
  have dist: "distinct (map fst (cusipDateRanges df))"
    by (simp add: cusipDateRanges_fst)
  have f: "filter (\<lambda>slot. fst slot = c) cal = map (\<lambda>d. (c, d)) [s..min e today]"
    unfolding cal_def by (rule calendar_of_cusip [OF dist assms])
  have "count_list cal (c, d) = length (filter ((=) (c, d)) cal)"
    by (simp add: count_list_eq_length_filter)
  also have "\<dots> = length (filter ((=) (c, d)) (filter (\<lambda>slot. fst slot = c) cal))"
    unfolding filter_filter by (rule arg_cong [where f = length], rule filter_cong) auto
  also have "\<dots> = length (filter (\<lambda>x. x = d) [s..min e today])"
    unfolding f by (simp add: filter_map comp_def eq_commute)
  also have "\<dots> = (if s \<le> d \<and> d \<le> min e today then 1 else 0)"
  proof -
    have "distinct [s..min e today]" by simp
    then have "length (filter (\<lambda>x. x = d) [s..min e today]) =
        (if d \<in> set [s..min e today] then 1 else 0)"
      by (rule distinct_count_eq)
    then show ?thesis by simp
  qed
  finally show ?thesis unfolding cal_def .
qed

lemma keyAmount_count:
  "length (filter (\<lambda>r. cusip r = c \<and> date r = d) xs) =
     size (filter_mset (\<lambda>v. fst v = c \<and> fst (snd v) = d) (mset (map keyAmount xs)))"
  by (induction xs) (auto simp: keyAmount_def)

lemma keyAmount_sum:
  "sum_list (map amountOf (filter (\<lambda>r. cusip r = c \<and> P (date r)) xs)) =
     sum_mset (image_mset (\<lambda>v. snd (snd v))
       (filter_mset (\<lambda>v. fst v = c \<and> P (fst (snd v))) (mset (map keyAmount xs))))"
  by (induction xs) (auto simp: keyAmount_def)

lemma buildPanel_weekdays: "\<forall>r \<in> set (buildPanel joined). weekday (date r) < 6"
  by (simp add: buildPanel_def Let_def)

subsection \<open>Dense ranks\<close>


subsection \<open>Groups of the vintage ranking\<close>















section \<open>The claims\<close>

text \<open>
  Claim C1, as amended. No output row falls on a Saturday or Sunday. For every cusip of
  the input, with \<open>s\<close> the least announcement date of its records and \<open>e\<close> the
  maturity date of one of its records (the first of its group), and for every business
  date \<open>d\<close> with \<open>s \<le> d \<le> min e today\<close>, the output holds at least one row for the
  cusip and \<open>d\<close>: exactly \<open>max 1 k\<close> rows, where \<open>k\<close> counts the auction records of
  the cusip joined on \<open>d\<close> (those issued on \<open>d\<close>, and, when \<open>d\<close> is today and none is
  issued today, those issued after today). There is exactly one row when at most one record
  of the cusip is joined on that date.
\<close>

theorem panel_rows_per_business_date:
  assumes "createCusipPanelAt today df = Inr panel" and "a \<in> set df"
  shows "(\<forall>r \<in> set panel. weekday (date r) < 6) \<and>
    (\<exists>s e. (auction.cusip a, s, e) \<in> set (cusipDateRanges df) \<and>
       (\<forall>x \<in> set df. auction.cusip x = auction.cusip a \<longrightarrow> s \<le> announcemt_date x) \<and>
       (\<exists>x \<in> set df. auction.cusip x = auction.cusip a \<and> announcemt_date x = s) \<and>
       (\<exists>x \<in> set df. auction.cusip x = auction.cusip a \<and> maturity_date x = e) \<and>
       (\<forall>d. s \<le> d \<and> d \<le> min e today \<and> weekday d < 6 \<longrightarrow>
          length (filter (\<lambda>r. cusip r = auction.cusip a \<and> date r = d) panel) =
            max 1 (joinedRecords today df (auction.cusip a) d)))"
proof
  show "\<forall>r \<in> set panel. weekday (date r) < 6"
    unfolding createCusipPanelAt_joined [OF assms(1)] by (rule buildPanel_weekdays)
next
  define c where "c = auction.cusip a"
  obtain s e where se: "(c, s, e) \<in> set (cusipDateRanges df)"
    using cusipDateRanges_exists [OF assms(2)] unfolding c_def by blast
  then have g: "groupAgg (filter (\<lambda>x. auction.cusip x = c) df) = Some (s, e)"
    by (simp add: cusipDateRanges_set)
  have agg: "(\<forall>x \<in> set df. auction.cusip x = c \<longrightarrow> s \<le> announcemt_date x) \<and>
      (\<exists>x \<in> set df. auction.cusip x = c \<and> announcemt_date x = s) \<and>
      (\<exists>x \<in> set df. auction.cusip x = c \<and> maturity_date x = e)"
    using groupAgg_Some [OF g] by auto
  have cnt: "length (filter (\<lambda>r. cusip r = c \<and> date r = d) panel) =
      max 1 (joinedRecords today df c d)"
    if d: "s \<le> d \<and> d \<le> min e today \<and> weekday d < 6" for d
  proof -
    have "length (filter (\<lambda>r. cusip r = c \<and> date r = d) panel) =
        size (filter_mset (\<lambda>v. fst v = c \<and> fst (snd v) = d)
          (filter_mset (\<lambda>v. weekday (fst (snd v)) < 6)
            (mset (map keyAmount (joinedFrame today df)))))"
      unfolding keyAmount_count panel_keyAmount [OF assms(1)] ..
    also have "\<dots> = size (filter_mset (\<lambda>v. fst v = c \<and> fst (snd v) = d)
        (mset (map keyAmount (joinedFrame today df))))"
      unfolding filter_filter_mset
      by (rule arg_cong [where f = size], rule filter_mset_cong) (use d in auto)
    also have "\<dots> = length (filter (\<lambda>r. cusip r = c \<and> date r = d) (joinedFrame today df))"
      by (simp only: keyAmount_count)
    also have "\<dots> = count_list (concat (map (cusipDates today) (cusipDateRanges df))) (c, d) *
        max 1 (length (filter (\<lambda>r. cusip r = c \<and> date r = d)
          (resolveFutureDated today (map (selectAuctionData df) df))))"
      unfolding joinedFrame_def by (rule leftJoin_count)
    also have "\<dots> = max 1 (joinedRecords today df c d)"
      using d by (simp add: calendar_count [OF se] resolveFutureDated_count)
    finally show ?thesis .
  qed
  show "\<exists>s e. (auction.cusip a, s, e) \<in> set (cusipDateRanges df) \<and>
       (\<forall>x \<in> set df. auction.cusip x = auction.cusip a \<longrightarrow> s \<le> announcemt_date x) \<and>
       (\<exists>x \<in> set df. auction.cusip x = auction.cusip a \<and> announcemt_date x = s) \<and>
       (\<exists>x \<in> set df. auction.cusip x = auction.cusip a \<and> maturity_date x = e) \<and>
       (\<forall>d. s \<le> d \<and> d \<le> min e today \<and> weekday d < 6 \<longrightarrow>
          length (filter (\<lambda>r. cusip r = auction.cusip a \<and> date r = d) panel) =
            max 1 (joinedRecords today df (auction.cusip a) d))"
    using se agg cnt unfolding c_def by blast
qed

theorem panel_rows_per_business_date_witness:
  "\<exists>panel. createCusipPanelAt 19727 exSameDay = Inr panel \<and>
     length (filter (\<lambda>r. cusip r = ''A'' \<and> date r = 19725) panel) = 1 \<and>
     length (filter (\<lambda>r. cusip r = ''A'' \<and> date r = 19724) panel) = 2"
proof -
  define panel where "panel = projr (createCusipPanelAt 19727 exSameDay)"
  define a where "a = exBill ''A'' 19723 19724 19752 (Some 50)"
  have p: "createCusipPanelAt 19727 exSameDay = Inr panel"
    unfolding panel_def by code_simp
  have a: "a \<in> set exSameDay" "auction.cusip a = ''A''"
    unfolding a_def by code_simp+
  obtain s e where se: "(''A'', s, e) \<in> set (cusipDateRanges exSameDay)"
    and cnt: "\<forall>d. s \<le> d \<and> d \<le> min e 19727 \<and> weekday d < 6 \<longrightarrow>
          length (filter (\<lambda>r. cusip r = ''A'' \<and> date r = d) panel) =
            max 1 (joinedRecords 19727 exSameDay ''A'' d)"
    using panel_rows_per_business_date [OF p a(1)] unfolding a(2) by blast
  have "cusipDateRanges exSameDay = [(''A'', 19723, 19752)]"
    by code_simp
  then have s: "s = 19723" and e: "e = 19752" using se by simp_all
  have d1: "s \<le> 19725 \<and> 19725 \<le> min e 19727 \<and> weekday 19725 < 6"
    unfolding s e by code_simp
  have d2: "s \<le> 19724 \<and> 19724 \<le> min e 19727 \<and> weekday 19724 < 6"
    unfolding s e by code_simp
  have j1: "max 1 (joinedRecords 19727 exSameDay ''A'' 19725) = 1"
    by code_simp
  have j2: "max 1 (joinedRecords 19727 exSameDay ''A'' 19724) = 2"
    by code_simp
  have c1: "length (filter (\<lambda>r. cusip r = ''A'' \<and> date r = 19725) panel) = 1"
    using cnt [rule_format, OF d1] unfolding j1 .
  have c2: "length (filter (\<lambda>r. cusip r = ''A'' \<and> date r = 19724) panel) = 2"
    using cnt [rule_format, OF d2] unfolding j2 .
  show ?thesis
    by (rule exI [of _ panel], intro conjI p c1 c2)
qed

text \<open>
  The claim as stated fails. Cusip \<open>A\<close>, announced on Monday 2024-01-01 (day 19723), has
  two auction records issued on Tuesday 2024-01-02 (day 19724); on Friday 2024-01-05 the
  panel holds two rows for \<open>A\<close> on 2024-01-02, a business day of its span: the join
  returns one row for each matching record.
\<close>

theorem panel_rows_per_business_date_counterexample:
  "\<exists>panel. createCusipPanelAt 19727 exSameDay = Inr panel \<and>
     19723 \<le> (19724::int) \<and> (19724::int) \<le> min 19752 19727 \<and> weekday 19724 < 6 \<and>
     length (filter (\<lambda>r. cusip r = ''A'' \<and> date r = 19724) panel) = 2"
proof -
  have a: "createCusipPanelAt 19727 exSameDay = Inr (projr (createCusipPanelAt 19727 exSameDay))"
    by code_simp
  have b: "19723 \<le> (19724::int)" "(19724::int) \<le> min 19752 19727" "weekday 19724 < 6"
    by code_simp+
  have c: "length (filter (\<lambda>r. cusip r = ''A'' \<and> date r = 19724)
      (projr (createCusipPanelAt 19727 exSameDay))) = 2"
    by code_simp
  show ?thesis
    by (rule exI [of _ "projr (createCusipPanelAt 19727 exSameDay)"], intro conjI a b c)
qed












text \<open>
  Claim C6, as amended. For every cusip, the sum of \<open>amountIssued\<close> over its output
  rows equals the sum of \<open>total_accepted\<close> (a null counting 0) over those of its
  auction records whose issue date is a business day within the span of the cusip, from
  its least announcement date to the earlier of its first maturity date and today. Records
  issued after today, on a weekend or outside the span add nothing.
\<close>

theorem issuance_conservation:
  assumes "createCusipPanelAt today df = Inr panel"
    and "(c, s, e) \<in> set (cusipDateRanges df)"
  shows "sum_list (map amountOf (filter (\<lambda>r. cusip r = c) panel)) =
         sum_list (map acceptedOf
           (filter (\<lambda>x. auction.cusip x = c \<and> s \<le> issue_date x \<and>
                        issue_date x \<le> min e today \<and> weekday (issue_date x) < 6) df))"
proof -
  define inSpan where "inSpan = (\<lambda>d. s \<le> d \<and> d \<le> min e today \<and> weekday d < 6)"
  define ad0 where "ad0 = map (selectAuctionData df) df"
  define ad where "ad = resolveFutureDated today ad0"
  define cal where "cal = concat (map (cusipDates today) (cusipDateRanges df))"
  have jf: "joinedFrame today df = leftJoin cal ad"
    by (simp add: joinedFrame_def cal_def ad_def ad0_def)
  have dist: "distinct (map fst (cusipDateRanges df))"
    by (simp add: cusipDateRanges_fst)
  have calc: "filter (\<lambda>slot. fst slot = c) cal = map (\<lambda>d. (c, d)) [s..min e today]"
    unfolding cal_def by (rule calendar_of_cusip [OF dist assms(2)])
  \<comment> \<open>from the panel back to the joined frame\<close>
  have "sum_list (map amountOf (filter (\<lambda>r. cusip r = c) panel)) =
      sum_mset (image_mset (\<lambda>v. snd (snd v))
        (filter_mset (\<lambda>v. fst v = c) (mset (map keyAmount panel))))"
    using keyAmount_sum [of c "\<lambda>_. True" panel] by simp
  also have "\<dots> = sum_mset (image_mset (\<lambda>v. snd (snd v))
      (filter_mset (\<lambda>v. fst v = c)
        (filter_mset (\<lambda>v. weekday (fst (snd v)) < 6) (mset (map keyAmount (joinedFrame today df))))))"
    by (simp only: panel_keyAmount [OF assms(1)])
  also have "\<dots> = sum_mset (image_mset (\<lambda>v. snd (snd v))
      (filter_mset (\<lambda>v. fst v = c \<and> weekday (fst (snd v)) < 6)
        (mset (map keyAmount (joinedFrame today df)))))"
    unfolding filter_filter_mset
    by (rule arg_cong [where f = "\<lambda>M. sum_mset (image_mset (\<lambda>v. snd (snd v)) M)"],
        rule filter_mset_cong) auto
  also have "\<dots> = sum_list (map amountOf
      (filter (\<lambda>r. cusip r = c \<and> weekday (date r) < 6) (leftJoin cal ad)))"
    unfolding jf by (simp only: keyAmount_sum [of c "\<lambda>d. weekday d < 6"])
  \<comment> \<open>the joined frame, slot by slot\<close>
  also have "\<dots> = sum_list (map (\<lambda>slot. sum_list (map amountOf
         (filter (\<lambda>r. cusip r = fst slot \<and> date r = snd slot) ad)))
       (filter (\<lambda>slot. fst slot = c \<and> weekday (snd slot) < 6) cal))"
    by (rule leftJoin_amount)
  also have "filter (\<lambda>slot. fst slot = c \<and> weekday (snd slot) < 6) cal =
      filter (\<lambda>slot. weekday (snd slot) < 6) (filter (\<lambda>slot. fst slot = c) cal)"
    by (simp add: conj_commute)
  also have "\<dots> = map (\<lambda>d. (c, d)) (filter (\<lambda>d. weekday d < 6) [s..min e today])"
    unfolding calc by (simp add: filter_map comp_def)
  also have "sum_list (map (\<lambda>slot. sum_list (map amountOf
         (filter (\<lambda>r. cusip r = fst slot \<and> date r = snd slot) ad)))
       (map (\<lambda>d. (c, d)) (filter (\<lambda>d. weekday d < 6) [s..min e today]))) =
     sum_list (map (\<lambda>d. sum_list (map amountOf (filter (\<lambda>r. cusip r = c \<and> date r = d) ad)))
       (filter (\<lambda>d. weekday d < 6) [s..min e today]))"
    by (simp add: comp_def)
  also have "\<dots> = sum_list (map amountOf
      (filter (\<lambda>r. cusip r = c \<and> date r \<in> set (filter (\<lambda>d. weekday d < 6) [s..min e today])) ad))"
    by (rule sum_over_distinct_dates) simp
  also have "filter (\<lambda>r. cusip r = c \<and> date r \<in> set (filter (\<lambda>d. weekday d < 6) [s..min e today])) ad =
      filter (\<lambda>r. inSpan (date r)) (filter (\<lambda>r. cusip r = c) ad)"
    unfolding filter_filter by (rule filter_cong) (auto simp: inSpan_def)
  \<comment> \<open>the future-dated records add nothing\<close>
  also have "sum_list (map amountOf (filter (\<lambda>r. inSpan (date r)) (filter (\<lambda>r. cusip r = c) ad))) =
      sum_list (map amountOf (filter (\<lambda>r. cusip r = c \<and> inSpan (date r)) ad0))"
  proof -
    have z: "sum_list (map amountOf (filter Q (map (redateToToday today) xs))) = 0" for Q xs
      by (induction xs) (auto simp: amountOf_def redateToToday_fields)
    have k: "filter (\<lambda>r. inSpan (date r)) (filter (\<lambda>r. cusip r = c \<and> date r \<le> today) ad0) =
        filter (\<lambda>r. cusip r = c \<and> inSpan (date r)) ad0"
      unfolding filter_filter by (rule filter_cong) (auto simp: inSpan_def)
    show ?thesis
      unfolding ad_def resolveFutureDated_cusip filter_append map_append sum_list_append k
      by (simp add: z)
  qed
  also have "\<dots> = sum_list (map acceptedOf
      (filter (\<lambda>x. auction.cusip x = c \<and> inSpan (issue_date x)) df))"
  proof -
    have "amountOf \<circ> selectAuctionData df = acceptedOf"
      by (rule ext) (simp add: selectAuctionData_fields amountOf_def acceptedOf_def)
    then show ?thesis
      by (simp add: ad0_def filter_map comp_def [of "\<lambda>r. cusip r = c \<and> inSpan (date r)"]
          selectAuctionData_fields)
  qed
  finally show ?thesis unfolding inSpan_def .
qed

theorem issuance_conservation_witness:
  "sum_list (map amountOf (filter (\<lambda>r. cusip r = ''A'')
     (projr (createCusipPanelAt 19727 exSameDay)))) = 70"
proof -
  define panel where "panel = projr (createCusipPanelAt 19727 exSameDay)"
  have p: "createCusipPanelAt 19727 exSameDay = Inr panel"
    unfolding panel_def by code_simp
  have r: "(''A'', 19723, 19752) \<in> set (cusipDateRanges exSameDay)"
    by code_simp
  have "sum_list (map acceptedOf
           (filter (\<lambda>x. auction.cusip x = ''A'' \<and> 19723 \<le> issue_date x \<and>
                        issue_date x \<le> min 19752 19727 \<and> weekday (issue_date x) < 6) exSameDay)) = 70"
    by code_simp
  then show ?thesis
    using issuance_conservation [OF p r] unfolding panel_def by simp
qed

text \<open>
  The claim as stated fails. The only record of cusip \<open>B\<close> is issued on day 19731,
  after today (day 19725), with 20 accepted; its three output rows all carry amount 0.
\<close>

theorem issuance_conservation_counterexample:
  "\<exists>panel. createCusipPanelAt 19725 exFuture = Inr panel \<and>
     map amountIssued (filter (\<lambda>r. cusip r = ''B'') panel) = [Some 0, Some 0, Some 0] \<and>
     map (\<lambda>x. (auction.cusip x, total_accepted x)) exFuture = [(''B'', Some 20)]"
proof -
  have a: "createCusipPanelAt 19725 exFuture = Inr (projr (createCusipPanelAt 19725 exFuture))"
    by code_simp
  have b: "map amountIssued (filter (\<lambda>r. cusip r = ''B'')
      (projr (createCusipPanelAt 19725 exFuture))) = [Some 0, Some 0, Some 0]"
    by code_simp
  have c: "map (\<lambda>x. (auction.cusip x, total_accepted x)) exFuture = [(''B'', Some 20)]"
    by code_simp
  show ?thesis
    by (rule exI [of _ "projr (createCusipPanelAt 19725 exFuture)"], intro conjI a b c)
qed

text \<open>
  Claim C7. On an empty frame of auction records \<open>_createCusipPanel\<close> does not return
  an empty panel: no cusip gives a calendar, and \<open>pl.concat\<close> of the empty list of
  calendars raises \<open>ValueError\<close>, whatever the clock shows.
\<close>

theorem empty_input_raises:
  "createCusipPanel clk [] = Inl ValueError \<and>
   (createCusipPanel clk auctionsDf = Inl ValueError) = (auctionsDf = [])"
proof
  show "createCusipPanel clk [] = Inl ValueError"
    by (simp add: createCusipPanel_def createCusipPanelAt_def cusipDateRanges_def
        List.map_filter_simps)
next
  have "map fst (cusipDateRanges auctionsDf) = [] \<longleftrightarrow> auctionsDf = []"
    unfolding cusipDateRanges_fst by (cases auctionsDf) auto
  then have "cusipDateRanges auctionsDf = [] \<longleftrightarrow> auctionsDf = []"
    by simp
  then show "(createCusipPanel clk auctionsDf = Inl ValueError) = (auctionsDf = [])"
    by (simp add: createCusipPanel_def createCusipPanelAt_def Let_def)
qed

text \<open>
  Claim C8. \<open>_classifyTenor\<close> returns the input records, each with a tenor and an
  \<open>unscheduledReopeningDate\<close>. Every cusip has a first issuance, a record of the cusip
  with the least issue date, the same for all records of the cusip. A record with a
  non-null \<open>announcemtd_cusip\<close> (the literal \<open>null\<close> being the upstream null) and
  \<open>reopening = Yes\<close> gets the tenor of the term from its own issue date to the maturity
  date of the first issuance, and its own issue date as \<open>unscheduledReopeningDate\<close>.
  Every other record gets the tenor of the term of the first issuance, from its issue date
  to its maturity date, and a null \<open>unscheduledReopeningDate\<close>.
\<close>

theorem classifyTenor_unscheduled_reopening:
  "mset (map auction.truncate (classifyTenor df)) = mset df \<and>
   (\<exists>first. \<forall>r \<in> set (classifyTenor df).
      first (auction.cusip r) \<in> set df \<and> auction.cusip (first (auction.cusip r)) = auction.cusip r \<and>
      (\<forall>x \<in> set df. auction.cusip x = auction.cusip r \<longrightarrow>
         issue_date (first (auction.cusip r)) \<le> issue_date x) \<and>
      (if announcemtd_cusip r \<notin> {None, Some ''null''} \<and> reopening r = ''Yes''
       then termToMaturityDays (sort_key (\<lambda>x. (auction.cusip x, issue_date x)) df)
              (auction.truncate r) =
              Some (maturity_date (first (auction.cusip r)) - issue_date r) \<and>
            classified.tenor r =
              tenorOf (Some (maturity_date (first (auction.cusip r)) - issue_date r)) \<and>
            classified.unscheduledReopeningDate r = Some (issue_date r)
       else termToMaturityDays (sort_key (\<lambda>x. (auction.cusip x, issue_date x)) df)
              (auction.truncate r) =
              Some (maturity_date (first (auction.cusip r)) -
                    issue_date (first (auction.cusip r))) \<and>
            classified.tenor r =
              tenorOf (Some (maturity_date (first (auction.cusip r)) -
                             issue_date (first (auction.cusip r)))) \<and>
            classified.unscheduledReopeningDate r = None))"
proof
  show "mset (map auction.truncate (classifyTenor df)) = mset df"
    by (simp add: classifyTenor_def Let_def comp_def classifyRow_fields)
next
  define sdf where "sdf = sort_key (\<lambda>r. (auction.cusip r, issue_date r)) df"
  define first where "first = (\<lambda>c. the (find (\<lambda>x. auction.cusip x = c) sdf))"
  have srt: "sorted (map (\<lambda>r. (auction.cusip r, issue_date r)) sdf)"
    by (simp add: sdf_def)
  have set_sdf: "set sdf = set df" by (simp add: sdf_def)
  have out: "classifyTenor df = map (classifyRow sdf) sdf"
    by (simp add: classifyTenor_def sdf_def Let_def)
  have main: "first (auction.cusip r) \<in> set df \<and> auction.cusip (first (auction.cusip r)) = auction.cusip r \<and>
      (\<forall>x \<in> set df. auction.cusip x = auction.cusip r \<longrightarrow>
         issue_date (first (auction.cusip r)) \<le> issue_date x) \<and>
      (if announcemtd_cusip r \<notin> {None, Some ''null''} \<and> reopening r = ''Yes''
       then termToMaturityDays (sort_key (\<lambda>x. (auction.cusip x, issue_date x)) df)
              (auction.truncate r) =
              Some (maturity_date (first (auction.cusip r)) - issue_date r) \<and>
            classified.tenor r =
              tenorOf (Some (maturity_date (first (auction.cusip r)) - issue_date r)) \<and>
            classified.unscheduledReopeningDate r = Some (issue_date r)
       else termToMaturityDays (sort_key (\<lambda>x. (auction.cusip x, issue_date x)) df)
              (auction.truncate r) =
              Some (maturity_date (first (auction.cusip r)) -
                    issue_date (first (auction.cusip r))) \<and>
            classified.tenor r =
              tenorOf (Some (maturity_date (first (auction.cusip r)) -
                             issue_date (first (auction.cusip r)))) \<and>
            classified.unscheduledReopeningDate r = None)"
    if r: "r \<in> set (classifyTenor df)" for r
  proof -
    obtain a where a: "a \<in> set sdf" "r = classifyRow sdf a"
      using r out by auto
    obtain e where e: "find (\<lambda>x. auction.cusip x = auction.cusip a) sdf = Some e"
      using find_cusip_Some [OF a(1)] by blast
    have fe: "first (auction.cusip a) = e"
      by (simp add: first_def e)
    have props: "e \<in> set sdf \<and> auction.cusip e = auction.cusip a \<and>
        (\<forall>x \<in> set sdf. auction.cusip x = auction.cusip a \<longrightarrow> issue_date e \<le> issue_date x)"
      using find_sorted_first [OF srt e] .
    have ttm: "termToMaturityDays sdf a =
        (if isUnscheduledReopening a = Some True then Some (maturity_date e - issue_date a)
         else Some (maturity_date e - issue_date e))"
      by (simp add: termToMaturityDays_def earliestDates_def e whenThen_def sub3_def)
    show ?thesis
      unfolding sdf_def [symmetric]
      using props
      by (simp add: fe a(2) classifyRow_fields ttm set_sdf whenThen_def
          isUnscheduledReopening_iff)
  qed
  show "\<exists>first. \<forall>r \<in> set (classifyTenor df).
      first (auction.cusip r) \<in> set df \<and> auction.cusip (first (auction.cusip r)) = auction.cusip r \<and>
      (\<forall>x \<in> set df. auction.cusip x = auction.cusip r \<longrightarrow>
         issue_date (first (auction.cusip r)) \<le> issue_date x) \<and>
      (if announcemtd_cusip r \<notin> {None, Some ''null''} \<and> reopening r = ''Yes''
       then termToMaturityDays (sort_key (\<lambda>x. (auction.cusip x, issue_date x)) df)
              (auction.truncate r) =
              Some (maturity_date (first (auction.cusip r)) - issue_date r) \<and>
            classified.tenor r =
              tenorOf (Some (maturity_date (first (auction.cusip r)) - issue_date r)) \<and>
            classified.unscheduledReopeningDate r = Some (issue_date r)
       else termToMaturityDays (sort_key (\<lambda>x. (auction.cusip x, issue_date x)) df)
              (auction.truncate r) =
              Some (maturity_date (first (auction.cusip r)) -
                    issue_date (first (auction.cusip r))) \<and>
            classified.tenor r =
              tenorOf (Some (maturity_date (first (auction.cusip r)) -
                             issue_date (first (auction.cusip r)))) \<and>
            classified.unscheduledReopeningDate r = None)"
    using main by blast
qed

lemma ex_classified:
  "classifyTenor [exReopening, exOpening] =
     [auction.extend exOpening (classified.fields None (Some 4)),
      auction.extend exReopening (classified.fields (Some 114) (Some 2))]"
  by (simp add: classifyTenor_def classifyRow_def termToMaturityDays_def earliestDates_def 
     isUnscheduledReopening_def and3_def neq3_def whenThen_def sub3_def tenorOf_def tenorBands_def inBand_def
     exOpening_def exReopening_def less_eq_prod_def)

theorem classifyTenor_unscheduled_reopening_witness:
  "classified.tenor (classifyTenor [exReopening, exOpening] ! 1) = Some 2 \<and>
   classified.unscheduledReopeningDate (classifyTenor [exReopening, exOpening] ! 1) = Some 114 \<and>
   classified.tenor (classifyTenor [exReopening, exOpening] ! 0) = Some 4 \<and>
   classified.unscheduledReopeningDate (classifyTenor [exReopening, exOpening] ! 0) = None"
proof -
  define out where "out = classifyTenor [exReopening, exOpening]"
  obtain first where first: "\<forall>r \<in> set out.
      first (auction.cusip r) \<in> set [exReopening, exOpening] \<and> auction.cusip (first (auction.cusip r)) = auction.cusip r \<and>
      (\<forall>x \<in> set [exReopening, exOpening]. auction.cusip x = auction.cusip r \<longrightarrow>
         issue_date (first (auction.cusip r)) \<le> issue_date x) \<and>
      (if announcemtd_cusip r \<notin> {None, Some ''null''} \<and> reopening r = ''Yes''
       then termToMaturityDays (sort_key (\<lambda>x. (auction.cusip x, issue_date x)) [exReopening, exOpening])
              (auction.truncate r) =
              Some (maturity_date (first (auction.cusip r)) - issue_date r) \<and>
            classified.tenor r =
              tenorOf (Some (maturity_date (first (auction.cusip r)) - issue_date r)) \<and>
            classified.unscheduledReopeningDate r = Some (issue_date r)
       else termToMaturityDays (sort_key (\<lambda>x. (auction.cusip x, issue_date x)) [exReopening, exOpening])
              (auction.truncate r) =
              Some (maturity_date (first (auction.cusip r)) -
                    issue_date (first (auction.cusip r))) \<and>
            classified.tenor r =
              tenorOf (Some (maturity_date (first (auction.cusip r)) -
                             issue_date (first (auction.cusip r)))) \<and>
            classified.unscheduledReopeningDate r = None)"
    using classifyTenor_unscheduled_reopening [of "[exReopening, exOpening]"]
    unfolding out_def by blast
  have outv: "out = [auction.extend exOpening (classified.fields None (Some 4)),
      auction.extend exReopening (classified.fields (Some 114) (Some 2))]"
    unfolding out_def by (rule ex_classified)
  have len: "length out = 2"
    by (simp add: outv)
  have keys: "auction.cusip (out ! 0) = ''A''" "auction.cusip (out ! 1) = ''A''"
    "issue_date (out ! 0) = 100" "issue_date (out ! 1) = 114"
    "announcemtd_cusip (out ! 0) = None" "announcemtd_cusip (out ! 1) = Some ''B''"
    "reopening (out ! 1) = ''Yes''"
    by (simp_all add: outv exOpening_def exReopening_def auction.defs classified.defs)
  have mem: "out ! 0 \<in> set out" "out ! 1 \<in> set out"
    using len by simp_all
  have f0: "first ''A'' \<in> set [exReopening, exOpening]"
    and f1: "\<forall>x \<in> set [exReopening, exOpening]. auction.cusip x = ''A'' \<longrightarrow>
         issue_date (first ''A'') \<le> issue_date x"
    using first mem(1) keys(1) by auto
  have "issue_date (first ''A'') \<le> 100"
    using f1 by (simp add: exOpening_def)
  then have fA: "first ''A'' = exOpening"
    using f0 by (auto simp: exReopening_def)
  have t: "tenorOf (Some 14) = Some 2" "tenorOf (Some 28) = Some 4"
    by (simp_all add: tenorOf_def tenorBands_def inBand_def)
  have r1: "classified.tenor (out ! 1) = Some 2 \<and> classified.unscheduledReopeningDate (out ! 1) = Some 114"
    using bspec [OF first mem(2)] keys fA t by (simp add: exOpening_def)
  have r0: "classified.tenor (out ! 0) = Some 4 \<and> classified.unscheduledReopeningDate (out ! 0) = None"
    using bspec [OF first mem(1)] keys fA t by (simp add: exOpening_def)
  from r0 r1 show ?thesis unfolding out_def by simp
qed

text \<open>
  Claim C9. No term to maturity satisfies the day-range conditions of two different bands
  of the \<open>when/then\<close> chain, and therefore the tenor the chain assigns does not depend
  on the order in which the bands are tried: any rearrangement of the bands assigns the
  same tenor (or null) to every term.
\<close>

theorem tenor_bands_non_overlapping:
  "(\<forall>i j. i < length tenorBands \<and> j < length tenorBands \<and> i \<noteq> j \<longrightarrow>
      \<not> (inBand (tenorBands ! i) t \<and> inBand (tenorBands ! j) t)) \<and>
   (\<forall>bs. mset bs = mset tenorBands \<longrightarrow> whenThenChain bs t = whenThenChain tenorBands t)"
proof (intro conjI allI impI)
  fix i j
  assume h: "i < length tenorBands \<and> j < length tenorBands \<and> i \<noteq> j"
  then consider "i < j" | "j < i" by linarith
  then show "\<not> (inBand (tenorBands ! i) t \<and> inBand (tenorBands ! j) t)"
  proof cases
    case 1
    then show ?thesis using tenorBands_nth_disjoint [of i j t] h by simp
  next
    case 2
    then show ?thesis using tenorBands_nth_disjoint [of j i t] h by auto
  qed
next
  fix bs :: "(rat \<times> rat \<times> int) list"
  assume "mset bs = mset tenorBands"
  then have "set bs = set tenorBands" by (rule mset_eq_setD)
  then show "whenThenChain bs t = whenThenChain tenorBands t"
    by (rule whenThenChain_order_free)
qed

theorem tenor_bands_non_overlapping_witness:
  "inBand (tenorBands ! 2) 28 \<and> \<not> inBand (tenorBands ! 11) 28 \<and>
   whenThenChain (rev tenorBands) 28 = Some 4 \<and> whenThenChain tenorBands 28 = Some 4"
proof -
  have a: "inBand (tenorBands ! 2) 28"
    by (simp add: tenorBands_def inBand_def)
  have l: "(2::nat) < length tenorBands \<and> (11::nat) < length tenorBands \<and> (2::nat) \<noteq> 11"
    by (simp add: tenorBands_def)
  have b: "\<not> inBand (tenorBands ! 11) 28"
    using tenor_bands_non_overlapping [of 28] l a by blast
  have "mset (rev tenorBands) = mset tenorBands" by simp
  then have c: "whenThenChain (rev tenorBands) 28 = whenThenChain tenorBands 28"
    using tenor_bands_non_overlapping [of 28] by blast
  have d: "whenThenChain tenorBands 28 = Some 4"
    by (simp add: tenorBands_def inBand_def)
  from a b c d show ?thesis by simp
qed

text \<open>
  Claim C10. In every output row \<open>amountIssued\<close> and \<open>totalIssued\<close> are non-null,
  and \<open>amountIssued\<close> is 0 on every row dated before the first issue date of its
  cusip: the amount step replaces every null of the join by 0 before the running sum.
\<close>

theorem amounts_never_null:
  assumes "createCusipPanelAt today df = Inr panel"
  shows "(\<forall>r \<in> set panel.
           (\<exists>a. amountIssued r = Some a) \<and> (\<exists>t. totalIssued r = Some t) \<and>
           (\<forall>f. firstIssueDate r = Some f \<and> date r < f \<longrightarrow> amountIssued r = Some 0)) \<and>
         image_mset (\<lambda>r. (cusip r, date r, amountIssued r)) (mset panel) =
         image_mset (\<lambda>r. (cusip r, date r, fill_null (amountIssued r) 0))
           (filter_mset (\<lambda>r. weekday (date r) < 6) (mset (joinedFrame today df)))"
proof
  have ok: "issuedOk (issuedView r)" if "r \<in> set panel" for r
    using buildPanel_issuedOk that createCusipPanelAt_joined [OF assms] by blast
  show "\<forall>r \<in> set panel.
           (\<exists>a. amountIssued r = Some a) \<and> (\<exists>t. totalIssued r = Some t) \<and>
           (\<forall>f. firstIssueDate r = Some f \<and> date r < f \<longrightarrow> amountIssued r = Some 0)"
    using ok by (auto simp: issuedOk_def issuedView_def)
  define g :: "string \<times> int \<times> int \<Rightarrow> string \<times> int \<times> int option"
    where "g = (\<lambda>v. (fst v, fst (snd v), Some (snd (snd v))))"
  have l: "(cusip r, date r, amountIssued r) = g (keyAmount r)" if "r \<in># mset panel" for r
    using ok [of r] that by (auto simp: issuedOk_def issuedView_def g_def keyAmount_def amountOf_def)
  have r: "(cusip j, date j, fill_null (amountIssued j) 0) = g (keyAmount j)" for j
    by (cases "amountIssued j") (simp_all add: g_def keyAmount_def amountOf_def fill_null_def)
  have "image_mset (\<lambda>r. (cusip r, date r, amountIssued r)) (mset panel) =
      image_mset (\<lambda>r. g (keyAmount r)) (mset panel)"
    by (rule image_mset_cong) (rule l)
  also have "\<dots> = image_mset g (mset (map keyAmount panel))"
    by (simp add: multiset.map_comp comp_def)
  also have "\<dots> = image_mset g (filter_mset (\<lambda>v. weekday (fst (snd v)) < 6)
      (mset (map keyAmount (joinedFrame today df))))"
    by (simp only: panel_keyAmount [OF assms])
  also have "\<dots> = image_mset g (image_mset keyAmount
      (filter_mset (\<lambda>r. weekday (date r) < 6) (mset (joinedFrame today df))))"
    by (simp add: filter_mset_image_mset keyAmount_def)
  also have "\<dots> = image_mset (\<lambda>r. g (keyAmount r))
      (filter_mset (\<lambda>r. weekday (date r) < 6) (mset (joinedFrame today df)))"
    by (simp add: multiset.map_comp comp_def)
  also have "\<dots> = image_mset (\<lambda>r. (cusip r, date r, fill_null (amountIssued r) 0))
      (filter_mset (\<lambda>r. weekday (date r) < 6) (mset (joinedFrame today df)))"
    by (simp only: r)
  finally show "image_mset (\<lambda>r. (cusip r, date r, amountIssued r)) (mset panel) =
         image_mset (\<lambda>r. (cusip r, date r, fill_null (amountIssued r) 0))
           (filter_mset (\<lambda>r. weekday (date r) < 6) (mset (joinedFrame today df)))" .
qed

theorem amounts_never_null_witness:
  "amountIssued (projr (createCusipPanelAt 19725 exFuture) ! 0) = Some 0 \<and>
   (\<exists>t. totalIssued (projr (createCusipPanelAt 19725 exFuture) ! 0) = Some t)"
proof -
  define panel where "panel = projr (createCusipPanelAt 19725 exFuture)"
  have p: "createCusipPanelAt 19725 exFuture = Inr panel"
    unfolding panel_def by code_simp
  have m: "panel ! 0 \<in> set panel"
    unfolding panel_def by code_simp
  have f: "firstIssueDate (panel ! 0) = Some 19731 \<and> date (panel ! 0) < 19731"
    unfolding panel_def by code_simp
  have "\<forall>r \<in> set panel.
           (\<exists>a. amountIssued r = Some a) \<and> (\<exists>t. totalIssued r = Some t) \<and>
           (\<forall>f. firstIssueDate r = Some f \<and> date r < f \<longrightarrow> amountIssued r = Some 0)"
    using amounts_never_null [OF p] by (rule conjunct1)
  then have "amountIssued (panel ! 0) = Some 0" "\<exists>t. totalIssued (panel ! 0) = Some t"
    using m f by blast+
  then show ?thesis unfolding panel_def by simp
qed

end
